theory Spec2Isabelle
  imports Main "HOL-Library.Word" "HOL-Library.Monad_Syntax"
begin

unbundle bit_operations_syntax

section \<open>Bytes, buffers and undefined behaviour\<close>

text \<open>
  The three programs are C. A buffer (a \<^verbatim>\<open>malloc\<close>ed copy of a file, a mapped
  view, a \<^verbatim>\<open>char\<close> array) is a list of bytes; a pointer into it is an index. An access
  outside the buffer is undefined behaviour in C: every function that can make one
  returns an \<open>option\<close>, and \<open>None\<close> is that access.
\<close>

type_synonym byte = "8 word"

section \<open>The byte transform of both mutators\<close>

text \<open>
  \<^verbatim>\<open>#define KEY_SIZE 8\<close> and
  \<^verbatim>\<open>#define ORIG_KEY "\x01\x01\x01\x01\x01\x01\x01\x01"\<close>; the key arrays are
  \<^verbatim>\<open>unsigned char key[KEY_SIZE + 1] = ORIG_KEY\<close>, so the ninth byte is the literal's
  terminator.
\<close>

definition KEY_SIZE :: nat where
  "KEY_SIZE = 8"

definition ORIG_KEY :: "byte list" where
  "ORIG_KEY = [1, 1, 1, 1, 1, 1, 1, 1, 0]"

text \<open>
  One step of the loop body \<^verbatim>\<open>data[i] ^= (key[i % KEY_SIZE] - 1)\<close>, for the key byte
  \<open>kb\<close> and the data byte \<open>b\<close>. Both operands are promoted to \<^verbatim>\<open>int\<close>: the
  subtraction and the exclusive or are on integers (\<open>kb = 0\<close> gives \<open>-1\<close>), and the
  assignment to an \<^verbatim>\<open>unsigned char\<close> keeps the low eight bits.
\<close>

definition crypt_byte :: "byte \<Rightarrow> byte \<Rightarrow> byte" where
  "crypt_byte kb b = word_of_int (uint b XOR (uint kb - 1))"

text \<open>
  \<^verbatim>\<open>for (int i = 0; i < len; i++) data[i] ^= (key[i % KEY_SIZE] - 1);\<close>
  where \<open>data\<close> points at index \<open>p\<close> of the buffer \<open>buf\<close>. The loop counter never
  overflows: it stops at \<open>len\<close>, an \<^verbatim>\<open>int\<close>.
\<close>

function xor_loop :: "byte list \<Rightarrow> nat \<Rightarrow> int \<Rightarrow> int \<Rightarrow> byte list \<Rightarrow> byte list option" where
  "xor_loop k p len i buf =
     (if i < len then
        (if nat i mod KEY_SIZE < length k \<and> p + nat i < length buf
         then xor_loop k p len (i + 1)
                (buf[p + nat i := crypt_byte (k ! (nat i mod KEY_SIZE)) (buf ! (p + nat i))])
         else None)
      else Some buf)"
  by pat_completeness auto
termination
  by (relation "measure (\<lambda>(k, p, len, i, buf). nat (len - i))") auto

declare xor_loop.simps [simp del]

text \<open>
  \<^verbatim>\<open>void xor_crypt(unsigned char* data, int len)\<close> of both mutators, with the global
  \<open>key\<close> passed explicitly. \<^verbatim>\<open>xor_crypt_file\<close> (ELF, the global \<open>file_key\<close>) and
  \<^verbatim>\<open>xor_crypt_additional\<close> (PE, the key a parameter) have the same body.
\<close>

definition xor_crypt :: "byte list \<Rightarrow> byte list \<Rightarrow> nat \<Rightarrow> int \<Rightarrow> byte list option" where
  "xor_crypt k buf p len = xor_loop k p len 0 buf"

definition xor_crypt_file :: "byte list \<Rightarrow> byte list \<Rightarrow> nat \<Rightarrow> int \<Rightarrow> byte list option" where
  "xor_crypt_file file_key buf p len = xor_loop file_key p len 0 buf"

definition xor_crypt_additional :: "byte list \<Rightarrow> nat \<Rightarrow> int \<Rightarrow> byte list \<Rightarrow> byte list option" where
  "xor_crypt_additional buf p len additional_key = xor_loop additional_key p len 0 buf"

text \<open>What the loop computes when it stays inside the buffer: the bytes at
  \<open>p, ..., p + n - 1\<close> transformed, every other byte kept.\<close>

definition crypt_region :: "byte list \<Rightarrow> nat \<Rightarrow> nat \<Rightarrow> byte list \<Rightarrow> byte list" where
  "crypt_region k p n buf =
     map (\<lambda>j. if p \<le> j \<and> j < p + n
              then crypt_byte (k ! ((j - p) mod KEY_SIZE)) (buf ! j) else buf ! j)
         [0..<length buf]"

section \<open>C strings in character arrays\<close>

text \<open>
  A \<^verbatim>\<open>char\<close> array is the list of its bytes, its length the declared size. The
  string it holds ends before the first zero byte; an array with no zero byte holds no
  string, and reading it as one runs past its end (\<open>None\<close>). The bytes of an array that
  was never written are indeterminate: where the program reads such an array, its
  initial content is a parameter of the model.
\<close>

type_synonym cbuf = "char list"

definition NUL :: char where
  "NUL = CHR 0x00"

definition c_str :: "cbuf \<Rightarrow> string option" where
  "c_str buf = (if NUL \<in> set buf then Some (takeWhile (\<lambda>c. c \<noteq> NUL) buf) else None)"

text \<open>
  \<^verbatim>\<open>strncpy(dst, src, n)\<close>: copies from the array \<open>src\<close> up to its terminator, at most
  \<open>n\<close> bytes, and fills what is left of the \<open>n\<close> bytes with zero bytes. It writes no
  terminator when \<open>src\<close> holds \<open>n\<close> bytes or more. The bytes of \<open>dst\<close> after the first
  \<open>n\<close> stay as they are.
\<close>

definition strncpy :: "cbuf \<Rightarrow> cbuf \<Rightarrow> nat \<Rightarrow> cbuf option" where
  "strncpy dst src n =
     (if n \<le> length dst \<and> (NUL \<in> set (take n src) \<or> n \<le> length src)
      then Some (take n (takeWhile (\<lambda>c. c \<noteq> NUL) src @ replicate n NUL) @ drop n dst)
      else None)"

text \<open>
  \<^verbatim>\<open>snprintf(dst, sz, ...)\<close> where the format expands to the string \<open>s\<close>: at most
  \<open>sz - 1\<close> bytes of \<open>s\<close>, then the terminator; the rest of \<open>dst\<close> is not written.
  \<open>snprintf_str\<close> is the string the array holds afterwards, for a local array that is
  only read as a string.
\<close>

definition snprintf :: "cbuf \<Rightarrow> nat \<Rightarrow> string \<Rightarrow> cbuf option" where
  "snprintf dst sz s =
     (if 0 < sz \<and> sz \<le> length dst
      then Some (take (sz - 1) s @ NUL # drop (min (length s) (sz - 1) + 1) dst)
      else None)"

definition snprintf_str :: "nat \<Rightarrow> string \<Rightarrow> string" where
  "snprintf_str sz s = take (sz - 1) s"

text \<open>
  \<^verbatim>\<open>tolower\<close> in the "C" locale (the programs never call \<^verbatim>\<open>setlocale\<close>): the
  letters \<open>A\<close> to \<open>Z\<close> go to \<open>a\<close> to \<open>z\<close>, every other byte stays.
\<close>

definition tolower :: "char \<Rightarrow> char" where
  "tolower c = (if 65 \<le> (of_char c :: nat) \<and> (of_char c :: nat) \<le> 90
                then char_of (of_char c + 32 :: nat) else c)"

text \<open>\<^verbatim>\<open>strstr(hay, needle) != NULL\<close> on two strings.\<close>

fun strstr :: "string \<Rightarrow> string \<Rightarrow> bool" where
  "strstr [] needle = (needle = [])"
| "strstr (c # cs) needle = (take (length needle) (c # cs) = needle \<or> strstr cs needle)"

text \<open>
  \<^verbatim>\<open>printf\<close>'s \<^verbatim>\<open>%0wd\<close> for an \<^verbatim>\<open>int\<close>: the decimal digits, padded with zeros
  on the left to \<open>w\<close> characters, a minus sign counting as one of them.
\<close>

definition digit_char :: "nat \<Rightarrow> char" where
  "digit_char d = ''0123456789'' ! d"

fun dec :: "nat \<Rightarrow> string" where
  "dec n = (if n < 10 then [digit_char n] else dec (n div 10) @ [digit_char (n mod 10)])"

declare dec.simps [simp del]

definition fmt_0d :: "nat \<Rightarrow> int \<Rightarrow> string" where
  "fmt_0d w n =
     (if n < 0
      then CHR ''-'' # replicate (w - 1 - length (dec (nat (- n)))) CHR ''0'' @ dec (nat (- n))
      else replicate (w - length (dec (nat n))) CHR ''0'' @ dec (nat n))"

text \<open>Signed \<^verbatim>\<open>int\<close> addition: overflow is undefined behaviour.\<close>

definition INT_MAX :: int where
  "INT_MAX = 2147483647"

definition INT_MIN :: int where
  "INT_MIN = - 2147483648"

definition add_int :: "int \<Rightarrow> int \<Rightarrow> int option" where
  "add_int a b = (if INT_MIN \<le> a + b \<and> a + b \<le> INT_MAX then Some (a + b) else None)"

section \<open>Executable images\<close>

text \<open>
  Both mutators read the headers of an executable through the structure declarations
  of a system header (\<^verbatim>\<open><elf.h>\<close>, \<^verbatim>\<open><windows.h>\<close>) that is not part of the
  repository. The layout those declarations give is a parameter of the model: a field
  is its offset in its structure and its width in bytes, and \<open>decode\<close> turns the
  bytes of a field into its value in the byte order of the machine. \<open>le_nat\<close> is that
  decoding on the little-endian machines both programs are written for.
\<close>

record fld =
  f_off :: nat
  f_len :: nat

definition le_nat :: "byte list \<Rightarrow> nat" where
  "le_nat bs = foldr (\<lambda>b acc. unat b + 256 * acc) bs 0"

text \<open>The bytes of the field \<open>f\<close> of the structure at index \<open>p\<close> of the image; \<open>None\<close>
  when the field does not lie inside the image.\<close>

definition rd_bytes :: "byte list \<Rightarrow> nat \<Rightarrow> fld \<Rightarrow> byte list option" where
  "rd_bytes data p f =
     (if p + f_off f + f_len f \<le> length data
      then Some (take (f_len f) (drop (p + f_off f) data)) else None)"

definition rd :: "(byte list \<Rightarrow> nat) \<Rightarrow> byte list \<Rightarrow> nat \<Rightarrow> fld \<Rightarrow> nat option" where
  "rd dec_f data p f = map_option dec_f (rd_bytes data p f)"

text \<open>
  The conversion of an unsigned size (\<^verbatim>\<open>Elf64_Xword\<close>, \<^verbatim>\<open>DWORD\<close>) or of a
  \<^verbatim>\<open>LONG\<close> to \<^verbatim>\<open>int\<close>, as the compilers of both programs do it: the low 32 bits,
  read as two's complement.
\<close>

definition to_int :: "nat \<Rightarrow> int" where
  "to_int n = sint (word_of_nat n :: 32 word)"

text \<open>How a run of a mutator ends: it returns to its caller, or \<^verbatim>\<open>exit\<close> ends the
  process with a status. \<^verbatim>\<open>EXIT_FAILURE\<close> is 1 on both systems.\<close>

datatype 'a run = Returned 'a | Exited int 'a

definition EXIT_FAILURE :: int where
  "EXIT_FAILURE = 1"

text \<open>
  The state of a mutator process: the globals \<open>key\<close> and \<open>file_key\<close> (a local of
  \<^verbatim>\<open>mutate_executable\<close> in the PE program), the loaded image \<open>mem\<close> (the bytes of the
  process's memory from \<^verbatim>\<open>__executable_start\<close> on), the files on disk, the number of
  calls of \<^verbatim>\<open>rand\<close> so far, and the lines written to the error stream.
\<close>

record proc =
  key :: "byte list"
  file_key :: "byte list"
  mem :: "byte list"
  disk :: "string \<Rightarrow> byte list option"
  rand_calls :: nat
  stderr :: "string list"

text \<open>
  \<^verbatim>\<open>for (int i = 0; i < KEY_SIZE; i++) key[i] = (unsigned char)(rand() % 255);\<close>
  \<open>rnd n\<close> is the value of the \<open>n\<close>-th call of \<^verbatim>\<open>rand\<close> (never negative). The
  array keeps its bytes from index \<open>KEY_SIZE\<close> on.
\<close>

definition fresh_key :: "(nat \<Rightarrow> nat) \<Rightarrow> nat \<Rightarrow> byte list \<Rightarrow> byte list" where
  "fresh_key rnd n old =
     map (\<lambda>i. word_of_nat (rnd (n + i) mod 255)) [0..<KEY_SIZE] @ drop KEY_SIZE old"

text \<open>\<^verbatim>\<open>strcmp(data + p, s) == 0\<close> for a string \<open>s\<close> without zero bytes: it reads the
  image until the bytes differ or \<open>s\<close> ends.\<close>

fun strcmp_eq :: "byte list \<Rightarrow> nat \<Rightarrow> string \<Rightarrow> bool option" where
  "strcmp_eq data p [] = (if p < length data then Some (data ! p = 0) else None)"
| "strcmp_eq data p (c # cs) =
     (if p < length data
      then (if data ! p = of_char c then strcmp_eq data (p + 1) cs else Some False)
      else None)"

text \<open>\<^verbatim>\<open>strncmp(a, s, n) == 0\<close> for an array \<open>a\<close> of \<open>n\<close> bytes and a string \<open>s\<close>
  without zero bytes.\<close>

fun strncmp_eq :: "byte list \<Rightarrow> string \<Rightarrow> bool" where
  "strncmp_eq [] s = True"
| "strncmp_eq (x # xs) [] = (x = 0)"
| "strncmp_eq (x # xs) (c # cs) = (x = of_char c \<and> strncmp_eq xs cs)"

section \<open>The ELF mutator (\<^verbatim>\<open>polymorphic_demo_linux.c\<close>)\<close>

text \<open>The fields of \<^verbatim>\<open>Elf64_Ehdr\<close> and \<^verbatim>\<open>Elf64_Shdr\<close> the program reads, and
  \<^verbatim>\<open>sizeof(Elf64_Shdr)\<close>.\<close>

record elf_layout =
  decode :: "byte list \<Rightarrow> nat"
  e_shoff :: fld
  e_shnum :: fld
  e_shstrndx :: fld
  shdr_size :: nat
  sh_name :: fld
  sh_addr :: fld
  sh_offset :: fld
  sh_size :: fld

text \<open>The layout of \<^verbatim>\<open><elf.h>\<close> on x86-64 Linux.\<close>

definition elf64 :: elf_layout where
  "elf64 =
     \<lparr>decode = le_nat,
      e_shoff = \<lparr>f_off = 40, f_len = 8\<rparr>, e_shnum = \<lparr>f_off = 60, f_len = 2\<rparr>,
      e_shstrndx = \<lparr>f_off = 62, f_len = 2\<rparr>, shdr_size = 64,
      sh_name = \<lparr>f_off = 0, f_len = 4\<rparr>, sh_addr = \<lparr>f_off = 16, f_len = 8\<rparr>,
      sh_offset = \<lparr>f_off = 24, f_len = 8\<rparr>, sh_size = \<lparr>f_off = 32, f_len = 8\<rparr>\<rparr>"

text \<open>
  \<^verbatim>\<open>for (int i = 0; i < elf_header->e_shnum; i++)
    if (!strcmp(string_table + section_headers[i].sh_name, section_name)) return &section_headers[i];\<close>
  The result is the index of the section header in the image, \<open>None\<close> for \<^verbatim>\<open>NULL\<close>.
\<close>

function section_loop ::
  "elf_layout \<Rightarrow> byte list \<Rightarrow> nat \<Rightarrow> nat \<Rightarrow> nat \<Rightarrow> nat \<Rightarrow> string \<Rightarrow> nat option option" where
  "section_loop L data shoff strtab shnum i section_name =
     (if i < shnum then
        (case rd (decode L) data (shoff + i * shdr_size L) (sh_name L) of
           None \<Rightarrow> None
         | Some nm \<Rightarrow>
             (case strcmp_eq data (strtab + nm) section_name of
                None \<Rightarrow> None
              | Some eq \<Rightarrow>
                  if eq then Some (Some (shoff + i * shdr_size L))
                  else section_loop L data shoff strtab shnum (i + 1) section_name))
      else Some None)"
  by pat_completeness auto
termination
  by (relation "measure (\<lambda>(L, data, shoff, strtab, shnum, i, n). shnum - i)") auto

declare section_loop.simps [simp del]

text \<open>
  \<^verbatim>\<open>Elf64_Shdr* get_section(void* data, char* section_name)\<close>:
  \<^verbatim>\<open>section_headers = data + elf_header->e_shoff\<close>,
  \<^verbatim>\<open>string_table = data + section_headers[elf_header->e_shstrndx].sh_offset\<close>, then the
  loop. The image does not change while it runs, so \<open>e_shnum\<close> is read once.
\<close>

definition get_section :: "elf_layout \<Rightarrow> byte list \<Rightarrow> string \<Rightarrow> nat option option" where
  "get_section L data section_name = do {
     shoff \<leftarrow> rd (decode L) data 0 (e_shoff L);
     shstrndx \<leftarrow> rd (decode L) data 0 (e_shstrndx L);
     strtab \<leftarrow> rd (decode L) data (shoff + shstrndx * shdr_size L) (sh_offset L);
     shnum \<leftarrow> rd (decode L) data 0 (e_shnum L);
     section_loop L data shoff strtab shnum 0 section_name
   }"

text \<open>
  The body of the loop of \<^verbatim>\<open>encrypt_file_sections\<close> for one section name. The
  pointer \<open>section_data\<close> is computed once; \<^verbatim>\<open>section->sh_size\<close> is read from the image
  for each of the two calls of \<^verbatim>\<open>xor_crypt_file\<close>, the second time from the image the
  first call has written. The \<^verbatim>\<open>printf\<close> after them changes nothing.
\<close>

definition encrypt_section :: "elf_layout \<Rightarrow> byte list \<Rightarrow> string \<Rightarrow> byte list \<Rightarrow> byte list option" where
  "encrypt_section L fk section_name data = do {
     section \<leftarrow> get_section L data section_name;
     (case section of
        None \<Rightarrow> Some data
      | Some h \<Rightarrow> do {
          sz \<leftarrow> rd (decode L) data h (sh_size L);
          if sz > 0 then do {
            off \<leftarrow> rd (decode L) data h (sh_offset L);
            d1 \<leftarrow> xor_crypt_file fk data off (to_int sz);
            sz' \<leftarrow> rd (decode L) d1 h (sh_size L);
            xor_crypt_file fk d1 off (to_int sz')
          }
          else Some data
        })
   }"

fun encrypt_sections :: "elf_layout \<Rightarrow> byte list \<Rightarrow> string list \<Rightarrow> byte list \<Rightarrow> byte list option" where
  "encrypt_sections L fk [] data = Some data"
| "encrypt_sections L fk (section_name # rest) data =
     Option.bind (encrypt_section L fk section_name data) (encrypt_sections L fk rest)"

text \<open>\<^verbatim>\<open>void encrypt_file_sections(char* data)\<close> with
  \<^verbatim>\<open>sections_to_encrypt[] = {".data", ".rodata", ".bss", NULL}\<close> and the global
  \<open>file_key\<close>.\<close>

definition encrypt_file_sections :: "elf_layout \<Rightarrow> byte list \<Rightarrow> byte list \<Rightarrow> byte list option" where
  "encrypt_file_sections L fk data = encrypt_sections L fk [''.data'', ''.rodata'', ''.bss''] data"

text \<open>
  The body of the loop of \<^verbatim>\<open>decrypt_runtime_sections\<close>, the constructor that runs
  before \<open>main\<close>, for one section name: the section is looked up in \<open>file_data\<close>, a
  fresh copy of the executable, and the bytes at its address \<open>sh_addr\<close> in the memory of
  the process are transformed. \<open>base\<close> is the address of \<^verbatim>\<open>__executable_start\<close>, where
  \<open>mem\<close> begins; an address outside \<open>mem\<close> is not mapped. The results of
  \<^verbatim>\<open>mprotect\<close> are not looked at: \<open>writable name\<close> says whether the pages of the
  section can be written once \<^verbatim>\<open>mprotect\<close> has been asked to allow it, and a store to
  a page that cannot be written ends the process like a store to an address that is
  not mapped (\<open>None\<close>). A size that is not positive as an \<^verbatim>\<open>int\<close> gives a loop that
  stores nothing. The state \<open>proc\<close> holds the bytes of the process, not the protection
  of its pages, which the second \<^verbatim>\<open>mprotect\<close> sets to \<^verbatim>\<open>PROT_READ\<close>.
\<close>

definition decrypt_runtime_section ::
  "elf_layout \<Rightarrow> (string \<Rightarrow> bool) \<Rightarrow> nat \<Rightarrow> byte list \<Rightarrow> byte list \<Rightarrow> string \<Rightarrow> byte list
   \<Rightarrow> byte list option" where
  "decrypt_runtime_section L writable base file_data fk section_name m = do {
     section \<leftarrow> get_section L file_data section_name;
     (case section of
        None \<Rightarrow> Some m
      | Some h \<Rightarrow> do {
          sz \<leftarrow> rd (decode L) file_data h (sh_size L);
          if sz > 0 then do {
            addr \<leftarrow> rd (decode L) file_data h (sh_addr L);
            if addr \<noteq> 0 then
              (if to_int sz \<le> 0 then Some m
               else if \<not> writable section_name \<or> addr < base then None
               else xor_crypt_file fk m (addr - base) (to_int sz))
            else Some m
          }
          else Some m
        })
   }"

fun decrypt_runtime_loop ::
  "elf_layout \<Rightarrow> (string \<Rightarrow> bool) \<Rightarrow> nat \<Rightarrow> byte list \<Rightarrow> byte list \<Rightarrow> string list \<Rightarrow> byte list
   \<Rightarrow> byte list option" where
  "decrypt_runtime_loop L writable base file_data fk [] m = Some m"
| "decrypt_runtime_loop L writable base file_data fk (section_name # rest) m =
     Option.bind (decrypt_runtime_section L writable base file_data fk section_name m)
       (decrypt_runtime_loop L writable base file_data fk rest)"

text \<open>
  \<^verbatim>\<open>void decrypt_runtime_sections()\<close>: \<open>exe\<close> is what \<^verbatim>\<open>readlink\<close>, \<^verbatim>\<open>open\<close>,
  \<^verbatim>\<open>malloc\<close> and \<^verbatim>\<open>read\<close> deliver of \<^verbatim>\<open>/proc/self/exe\<close>, \<open>None\<close> when one of them
  fails and the function returns at once.
\<close>

definition decrypt_runtime_sections ::
  "elf_layout \<Rightarrow> (string \<Rightarrow> bool) \<Rightarrow> nat \<Rightarrow> byte list option \<Rightarrow> proc \<Rightarrow> proc option" where
  "decrypt_runtime_sections L writable base exe st =
     (case exe of
        None \<Rightarrow> Some st
      | Some file_data \<Rightarrow>
          map_option (\<lambda>m. st\<lparr>mem := m\<rparr>)
            (decrypt_runtime_loop L writable base file_data (file_key st)
               [''.data'', ''.rodata'', ''.bss''] (mem st)))"

text \<open>\<^verbatim>\<open>void die(char* data, char* msg)\<close>: one line on the error stream, then
  \<^verbatim>\<open>exit(EXIT_FAILURE)\<close>.\<close>

definition die :: "string \<Rightarrow> proc \<Rightarrow> proc run" where
  "die msg st = Exited EXIT_FAILURE (st\<lparr>stderr := stderr st @ [''ERROR: '' @ msg]\<rparr>)"

text \<open>
  What the system answers \<open>mutate\<close>: whether the two calls of \<^verbatim>\<open>mprotect\<close>,
  \<^verbatim>\<open>unlink\<close>, \<^verbatim>\<open>open\<close> and \<^verbatim>\<open>write\<close> succeed, and the values of \<^verbatim>\<open>rand\<close>.
\<close>

record elf_os =
  mprotect_rwx_ok :: bool
  mprotect_rx_ok :: bool
  unlink_ok :: bool
  open_ok :: bool
  write_ok :: bool
  rand_elf :: "nat \<Rightarrow> nat"

text \<open>
  The end of \<open>mutate\<close>: the old file is removed, a new one is created and the first
  \<open>filesize\<close> bytes of the buffer are written to it.
\<close>

definition write_back :: "elf_os \<Rightarrow> string \<Rightarrow> byte list \<Rightarrow> int \<Rightarrow> proc \<Rightarrow> proc run option" where
  "write_back os filename data filesize st =
     (if \<not> unlink_ok os then Some (die ''Could not remove old file\<newline>'' st)
      else
        let st1 = st\<lparr>disk := (disk st)(filename := None)\<rparr> in
        if \<not> open_ok os then Some (die ''Could not create new file\<newline>'' st1)
        else
          let st2 = st1\<lparr>disk := (disk st1)(filename \<mapsto> [])\<rparr> in
          if \<not> write_ok os then Some (die ''Could not write file\<newline>'' st2)
          else if nat filesize \<le> length data
          then Some (Returned (st2\<lparr>disk := (disk st2)(filename \<mapsto> take (nat filesize) data)\<rparr>))
          else None)"

text \<open>
  \<^verbatim>\<open>void mutate(char* data, char* filename, int filesize)\<close>. \<open>data\<close> is the buffer
  \<open>main\<close> has read the executable into. The section header is found first; without it
  the process dies there. Then the copy of the section in memory and the copy in the
  buffer are decrypted with the current key, a new key is drawn, the copy in the buffer
  is encrypted with it, a new file key is drawn, \<open>encrypt_file_sections\<close> runs and the
  buffer is written back.
\<close>

definition mutate :: "elf_layout \<Rightarrow> elf_os \<Rightarrow> byte list \<Rightarrow> string \<Rightarrow> int \<Rightarrow> proc \<Rightarrow> proc run option" where
  "mutate L os data filename filesize st = do {
     section \<leftarrow> get_section L data ''.poly'';
     (case section of
        None \<Rightarrow> Some (die ''Could not find polymorphic section\<newline>'' st)
      | Some h \<Rightarrow> do {
          off \<leftarrow> rd (decode L) data h (sh_offset L);
          sz \<leftarrow> rd (decode L) data h (sh_size L);
          if \<not> mprotect_rwx_ok os then Some (die ''Could not make memory writable\<newline>'' st)
          else do {
            m \<leftarrow> xor_crypt (key st) (mem st) off (to_int sz);
            d1 \<leftarrow> xor_crypt (key st) data off (to_int sz);
            let st1 = st\<lparr>mem := m\<rparr>;
            if \<not> mprotect_rx_ok os
            then Some (die ''Could not restore memory protection\<newline>'' st1)
            else do {
              let st2 = st1\<lparr>key := fresh_key (rand_elf os) (rand_calls st1) (key st1),
                           rand_calls := rand_calls st1 + KEY_SIZE\<rparr>;
              sz1 \<leftarrow> rd (decode L) d1 h (sh_size L);
              d2 \<leftarrow> xor_crypt (key st2) d1 off (to_int sz1);
              let st3 = st2\<lparr>file_key := fresh_key (rand_elf os) (rand_calls st2) (file_key st2),
                           rand_calls := rand_calls st2 + KEY_SIZE\<rparr>;
              d3 \<leftarrow> encrypt_file_sections L (file_key st3) d2;
              write_back os filename d3 filesize st3
            }
          }
        })
   }"

section \<open>The PE mutator (\<^verbatim>\<open>polymorphic_demo_windows.c\<close>)\<close>

text \<open>
  The fields of \<^verbatim>\<open>IMAGE_DOS_HEADER\<close>, \<^verbatim>\<open>IMAGE_NT_HEADERS\<close> and
  \<^verbatim>\<open>IMAGE_SECTION_HEADER\<close> the program reads, the two signatures, the offset of the
  optional header in the NT headers (from which \<^verbatim>\<open>IMAGE_FIRST_SECTION\<close> counts) and
  the size of a section header. The width of \<open>sec_name\<close> is
  \<^verbatim>\<open>IMAGE_SIZEOF_SHORT_NAME\<close>.
\<close>

record pe_layout =
  pe_decode :: "byte list \<Rightarrow> nat"
  dos_e_magic :: fld
  dos_e_lfanew :: fld
  dos_signature :: nat
  nt_signature_fld :: fld
  nt_signature :: nat
  nt_number_of_sections :: fld
  nt_size_of_optional_header :: fld
  nt_optional_header_at :: nat
  section_header_size :: nat
  sec_name :: fld
  sec_size_of_raw_data :: fld
  sec_pointer_to_raw_data :: fld

text \<open>The layout of \<^verbatim>\<open><windows.h>\<close> (\<^verbatim>\<open>winnt.h\<close>): \<open>MZ\<close>, \<open>PE\0\0\<close>, section
  headers of 40 bytes.\<close>

definition pe_image :: pe_layout where
  "pe_image =
     \<lparr>pe_decode = le_nat,
      dos_e_magic = \<lparr>f_off = 0, f_len = 2\<rparr>, dos_e_lfanew = \<lparr>f_off = 60, f_len = 4\<rparr>,
      dos_signature = 0x5A4D,
      nt_signature_fld = \<lparr>f_off = 0, f_len = 4\<rparr>, nt_signature = 0x4550,
      nt_number_of_sections = \<lparr>f_off = 6, f_len = 2\<rparr>,
      nt_size_of_optional_header = \<lparr>f_off = 20, f_len = 2\<rparr>,
      nt_optional_header_at = 24, section_header_size = 40,
      sec_name = \<lparr>f_off = 0, f_len = 8\<rparr>,
      sec_size_of_raw_data = \<lparr>f_off = 16, f_len = 4\<rparr>,
      sec_pointer_to_raw_data = \<lparr>f_off = 20, f_len = 4\<rparr>\<rparr>"

text \<open>
  \<^verbatim>\<open>for (int i = 0; i < num_sections; i++)
    if (strncmp((char*)sections[i].Name, name, IMAGE_SIZEOF_SHORT_NAME) == 0) return &sections[i];\<close>
  The name field is read as the array it is.
\<close>

function find_loop ::
  "pe_layout \<Rightarrow> byte list \<Rightarrow> nat \<Rightarrow> nat \<Rightarrow> nat \<Rightarrow> string \<Rightarrow> nat option option" where
  "find_loop L data sections num_sections i name =
     (if i < num_sections then
        (case rd_bytes data (sections + i * section_header_size L) (sec_name L) of
           None \<Rightarrow> None
         | Some nm \<Rightarrow>
             if strncmp_eq nm name then Some (Some (sections + i * section_header_size L))
             else find_loop L data sections num_sections (i + 1) name)
      else Some None)"
  by pat_completeness auto
termination
  by (relation "measure (\<lambda>(L, data, sections, num_sections, i, n). num_sections - i)") auto

declare find_loop.simps [simp del]

text \<open>
  \<^verbatim>\<open>IMAGE_SECTION_HEADER* find_section(void* data, const char* name)\<close>: \<^verbatim>\<open>NULL\<close> when
  a signature is wrong or no section has the name. \<open>e_lfanew\<close> is a \<^verbatim>\<open>LONG\<close>; a
  negative one points before the image.
\<close>

definition find_section :: "pe_layout \<Rightarrow> byte list \<Rightarrow> string \<Rightarrow> nat option option" where
  "find_section L data name = do {
     magic \<leftarrow> rd (pe_decode L) data 0 (dos_e_magic L);
     if magic \<noteq> dos_signature L then Some None
     else do {
       lfanew \<leftarrow> rd (pe_decode L) data 0 (dos_e_lfanew L);
       if to_int lfanew < 0 then None
       else do {
         sig \<leftarrow> rd (pe_decode L) data (nat (to_int lfanew)) (nt_signature_fld L);
         if sig \<noteq> nt_signature L then Some None
         else do {
           opt \<leftarrow> rd (pe_decode L) data (nat (to_int lfanew)) (nt_size_of_optional_header L);
           num_sections \<leftarrow> rd (pe_decode L) data (nat (to_int lfanew)) (nt_number_of_sections L);
           find_loop L data (nat (to_int lfanew) + nt_optional_header_at L + opt)
             num_sections 0 name
         }
       }
     }
   }"

text \<open>
  \<^verbatim>\<open>void encrypt_file_sections(void* mapped_data, unsigned char* file_key)\<close> of the PE
  program, with \<^verbatim>\<open>sections_to_encrypt[] = {".rdata", NULL}\<close>: one call of
  \<^verbatim>\<open>xor_crypt_additional\<close> on the raw data of \<open>.rdata\<close>.
\<close>

definition encrypt_file_sections_pe :: "pe_layout \<Rightarrow> byte list \<Rightarrow> byte list \<Rightarrow> byte list option" where
  "encrypt_file_sections_pe L mapped_data fk = do {
     section \<leftarrow> find_section L mapped_data ''.rdata'';
     (case section of
        None \<Rightarrow> Some mapped_data
      | Some h \<Rightarrow> do {
          sz \<leftarrow> rd (pe_decode L) mapped_data h (sec_size_of_raw_data L);
          if sz > 0 then do {
            off \<leftarrow> rd (pe_decode L) mapped_data h (sec_pointer_to_raw_data L);
            xor_crypt_additional mapped_data off (to_int sz) fk
          }
          else Some mapped_data
        })
   }"

text \<open>
  \<^verbatim>\<open>void die(char* msg)\<close> of the PE program: two lines on the error stream, the second
  with \<^verbatim>\<open>GetLastError()\<close>, then \<^verbatim>\<open>exit(EXIT_FAILURE)\<close>.
\<close>

definition die_pe :: "nat \<Rightarrow> string \<Rightarrow> proc \<Rightarrow> proc run" where
  "die_pe last_error msg st =
     Exited EXIT_FAILURE
       (st\<lparr>stderr := stderr st @ [''ERROR: '' @ msg @ ''\<newline>'',
                                   ''Last error: '' @ dec last_error @ ''\<newline>'']\<rparr>)"

text \<open>
  What the system answers \<open>mutate_executable\<close>: whether \<^verbatim>\<open>CreateFileA\<close>,
  \<^verbatim>\<open>GetFileSize\<close>, \<^verbatim>\<open>CreateFileMappingA\<close>, \<^verbatim>\<open>MapViewOfFile\<close> and
  \<^verbatim>\<open>FlushViewOfFile\<close> succeed, the value of \<^verbatim>\<open>GetLastError\<close>, and the values of
  \<^verbatim>\<open>rand\<close>.
\<close>

record pe_os =
  create_file_ok :: bool
  get_file_size_ok :: bool
  create_mapping_ok :: bool
  map_view_ok :: bool
  flush_ok :: bool
  last_error :: nat
  rand_pe :: "nat \<Rightarrow> nat"

text \<open>\<^verbatim>\<open>memcpy(dst + p, src, n)\<close> into the image, and the \<open>n\<close> bytes
  \<^verbatim>\<open>memcpy(dst, src + p, n)\<close> reads from it.\<close>

definition memcpy_to :: "byte list \<Rightarrow> nat \<Rightarrow> byte list \<Rightarrow> nat \<Rightarrow> byte list option" where
  "memcpy_to dst p src n =
     (if p + n \<le> length dst \<and> n \<le> length src
      then Some (take p dst @ take n src @ drop (p + n) dst) else None)"

definition memcpy_from :: "byte list \<Rightarrow> nat \<Rightarrow> nat \<Rightarrow> byte list option" where
  "memcpy_from src p n = (if p + n \<le> length src then Some (take n (drop p src)) else None)"

text \<open>
  The part of \<open>mutate_executable\<close> that works on the mapped view, once both sections
  are found at \<open>data_section\<close> and \<open>poly_section\<close>: the key is read from the start of the
  raw data of \<open>.data\<close>, \<open>.poly\<close> is decrypted with it, a new key is drawn and stored
  where the old one was, \<open>.poly\<close> is encrypted with the new key (its size read again
  from the view), and \<open>.rdata\<close> is encrypted with a key drawn for it. The result is the
  view and the state with the new key.
\<close>

definition rewrite_view ::
  "pe_layout \<Rightarrow> pe_os \<Rightarrow> nat \<Rightarrow> nat \<Rightarrow> byte list \<Rightarrow> proc \<Rightarrow> (byte list \<times> proc) option" where
  "rewrite_view L os data_section poly_section mapped_data st = do {
     key_in_file \<leftarrow> rd (pe_decode L) mapped_data data_section (sec_pointer_to_raw_data L);
     k0 \<leftarrow> memcpy_from mapped_data key_in_file KEY_SIZE;
     let st1 = st\<lparr>key := k0 @ drop KEY_SIZE (key st)\<rparr>;
     section_data \<leftarrow> rd (pe_decode L) mapped_data poly_section (sec_pointer_to_raw_data L);
     sz \<leftarrow> rd (pe_decode L) mapped_data poly_section (sec_size_of_raw_data L);
     m1 \<leftarrow> xor_crypt (key st1) mapped_data section_data (to_int sz);
     let st2 = st1\<lparr>key := fresh_key (rand_pe os) (rand_calls st1) (key st1),
                  rand_calls := rand_calls st1 + KEY_SIZE\<rparr>;
     m2 \<leftarrow> memcpy_to m1 key_in_file (key st2) KEY_SIZE;
     sz2 \<leftarrow> rd (pe_decode L) m2 poly_section (sec_size_of_raw_data L);
     m3 \<leftarrow> xor_crypt (key st2) m2 section_data (to_int sz2);
     let fk = fresh_key (rand_pe os) (rand_calls st2) [];
     let st3 = st2\<lparr>rand_calls := rand_calls st2 + KEY_SIZE\<rparr>;
     m4 \<leftarrow> encrypt_file_sections_pe L m3 fk;
     Some (m4, st3)
   }"

text \<open>
  \<^verbatim>\<open>void mutate_executable(char* exe_path)\<close>. The file is opened and mapped for
  reading and writing; every failure up to the two lookups unmaps, closes and dies, and
  nothing has been written to the view by then. What is written to the view is the
  file's content once the view is unmapped; a failed \<^verbatim>\<open>FlushViewOfFile\<close> only prints
  a warning.
\<close>

definition mutate_executable :: "pe_layout \<Rightarrow> pe_os \<Rightarrow> string \<Rightarrow> proc \<Rightarrow> proc run option" where
  "mutate_executable L os exe_path st =
     (case disk st exe_path of
        None \<Rightarrow> Some (die_pe (last_error os) ''Could not open executable file'' st)
      | Some mapped_data \<Rightarrow>
          if \<not> create_file_ok os
          then Some (die_pe (last_error os) ''Could not open executable file'' st)
          else if \<not> get_file_size_ok os
          then Some (die_pe (last_error os) ''Could not get file size'' st)
          else if \<not> create_mapping_ok os
          then Some (die_pe (last_error os) ''Could not create file mapping'' st)
          else if \<not> map_view_ok os
          then Some (die_pe (last_error os) ''Could not map view of file'' st)
          else do {
            data_section \<leftarrow> find_section L mapped_data ''.data'';
            (case data_section of
               None \<Rightarrow> Some (die_pe (last_error os) ''Could not find .data section'' st)
             | Some dh \<Rightarrow> do {
                 poly_section \<leftarrow> find_section L mapped_data ''.poly'';
                 (case poly_section of
                    None \<Rightarrow>
                      Some (die_pe (last_error os) ''Could not find polymorphic section'' st)
                  | Some ph \<Rightarrow> do {
                      (m, st') \<leftarrow> rewrite_view L os dh ph mapped_data st;
                      let st'' =
                        (if flush_ok os then st'
                         else st'\<lparr>stderr := stderr st' @
                                  [''Warning: Could not flush view of file\<newline>'']\<rparr>);
                      Some (Returned (st''\<lparr>disk := (disk st'')(exe_path \<mapsto> m)\<rparr>))
                    })
               })
          })"

section \<open>Well-formed images\<close>

text \<open>
  What \<open>encrypt_file_sections\<close> needs of the image for one of its section names: the
  lookup stays inside the image; and if the section is there with a size that is not
  zero, the bytes \<^verbatim>\<open>xor_crypt_file\<close> is to transform lie inside the image and do not
  overlap the \<open>sh_size\<close> field of the section's own header (in an ELF file the section
  header table lies apart from the sections).
\<close>

definition aux_section_wf :: "elf_layout \<Rightarrow> byte list \<Rightarrow> string \<Rightarrow> bool" where
  "aux_section_wf L data section_name =
     (case get_section L data section_name of
        None \<Rightarrow> False
      | Some None \<Rightarrow> True
      | Some (Some h) \<Rightarrow>
          (case rd (decode L) data h (sh_size L) of
             None \<Rightarrow> False
           | Some sz \<Rightarrow>
               sz = 0 \<or>
               (case rd (decode L) data h (sh_offset L) of
                  None \<Rightarrow> False
                | Some off \<Rightarrow>
                    off + nat (to_int sz) \<le> length data \<and>
                    (h + f_off (sh_size L) + f_len (sh_size L) \<le> off \<or>
                     off + nat (to_int sz) \<le> h + f_off (sh_size L)))))"

text \<open>
  What the hook \<open>decrypt_runtime_sections\<close> needs for one of its section names: the
  lookup in the copy of the executable stays inside it; and if the section is there
  with a size and an address that are not zero and the loop has bytes to store, its
  pages can be written and the bytes lie in the memory of the process.
\<close>

definition runtime_section_wf ::
  "elf_layout \<Rightarrow> (string \<Rightarrow> bool) \<Rightarrow> nat \<Rightarrow> byte list \<Rightarrow> byte list \<Rightarrow> string \<Rightarrow> bool" where
  "runtime_section_wf L writable base file_data m section_name =
     (case get_section L file_data section_name of
        None \<Rightarrow> False
      | Some None \<Rightarrow> True
      | Some (Some h) \<Rightarrow>
          (case rd (decode L) file_data h (sh_size L) of
             None \<Rightarrow> False
           | Some sz \<Rightarrow>
               sz = 0 \<or>
               (case rd (decode L) file_data h (sh_addr L) of
                  None \<Rightarrow> False
                | Some addr \<Rightarrow>
                    addr = 0 \<or> to_int sz \<le> 0 \<or>
                    (writable section_name \<and> base \<le> addr \<and>
                     addr - base + nat (to_int sz) \<le> length m))))"

section \<open>Images without a section of a given name\<close>

text \<open>
  An ELF image lacks a section called \<open>name\<close> when its header, the header of its
  section name table and the \<open>e_shnum\<close> entries of its section header table can be
  read, and the name each entry points to in the table is a string other than \<open>name\<close>.
  \<open>elf_section_named\<close> compares the name of entry \<open>i\<close> with \<open>name\<close>.
\<close>

definition elf_section_named ::
  "elf_layout \<Rightarrow> byte list \<Rightarrow> nat \<Rightarrow> nat \<Rightarrow> nat \<Rightarrow> string \<Rightarrow> bool option" where
  "elf_section_named L data shoff strtab i name = do {
     nm \<leftarrow> rd (decode L) data (shoff + i * shdr_size L) (sh_name L);
     strcmp_eq data (strtab + nm) name
   }"

definition elf_lacks :: "elf_layout \<Rightarrow> byte list \<Rightarrow> string \<Rightarrow> bool" where
  "elf_lacks L data name =
     (case rd (decode L) data 0 (e_shoff L) of
        None \<Rightarrow> False
      | Some shoff \<Rightarrow>
          (case rd (decode L) data 0 (e_shstrndx L) of
             None \<Rightarrow> False
           | Some shstrndx \<Rightarrow>
               (case rd (decode L) data (shoff + shstrndx * shdr_size L) (sh_offset L) of
                  None \<Rightarrow> False
                | Some strtab \<Rightarrow>
                    (case rd (decode L) data 0 (e_shnum L) of
                       None \<Rightarrow> False
                     | Some shnum \<Rightarrow>
                         list_all (\<lambda>i. elf_section_named L data shoff strtab i name = Some False)
                           [0..<shnum]))))"

text \<open>
  A PE image lacks a section called \<open>name\<close> when it has the two signatures, its
  headers and its \<open>NumberOfSections\<close> section headers can be read, and the \<open>Name\<close>
  field of none of them holds \<open>name\<close>.
\<close>

definition pe_lacks :: "pe_layout \<Rightarrow> byte list \<Rightarrow> string \<Rightarrow> bool" where
  "pe_lacks L data name =
     (case rd (pe_decode L) data 0 (dos_e_magic L) of
        None \<Rightarrow> False
      | Some magic \<Rightarrow>
          magic = dos_signature L \<and>
          (case rd (pe_decode L) data 0 (dos_e_lfanew L) of
             None \<Rightarrow> False
           | Some lfanew \<Rightarrow>
               0 \<le> to_int lfanew \<and>
               (case rd (pe_decode L) data (nat (to_int lfanew)) (nt_signature_fld L) of
                  None \<Rightarrow> False
                | Some sig \<Rightarrow>
                    sig = nt_signature L \<and>
                    (case rd (pe_decode L) data (nat (to_int lfanew))
                            (nt_size_of_optional_header L) of
                       None \<Rightarrow> False
                     | Some opt \<Rightarrow>
                         (case rd (pe_decode L) data (nat (to_int lfanew))
                                 (nt_number_of_sections L) of
                            None \<Rightarrow> False
                          | Some num_sections \<Rightarrow>
                              list_all
                                (\<lambda>i. case rd_bytes data
                                             (nat (to_int lfanew) + nt_optional_header_at L + opt +
                                              i * section_header_size L) (sec_name L) of
                                        None \<Rightarrow> False
                                      | Some nm \<Rightarrow> \<not> strncmp_eq nm name)
                                [0..<num_sections])))))"

section \<open>The sections of a PE image\<close>

text \<open>
  \<open>pe_section hdr name\<close> is what the headers \<open>hdr\<close> of a PE image say of the section
  called \<open>name\<close>: where its section header is, its \<open>PointerToRawData\<close> and its
  \<open>SizeOfRawData\<close>; \<open>None\<close> when the headers have no such section or cannot be read.
  The headers of an image are its first bytes, before the raw data of any section.
\<close>

definition pe_section :: "pe_layout \<Rightarrow> byte list \<Rightarrow> string \<Rightarrow> (nat \<times> nat \<times> nat) option" where
  "pe_section L hdr name =
     (case find_section L hdr name of
        None \<Rightarrow> None
      | Some None \<Rightarrow> None
      | Some (Some h) \<Rightarrow>
          (case rd (pe_decode L) hdr h (sec_pointer_to_raw_data L) of
             None \<Rightarrow> None
           | Some ptr \<Rightarrow>
               (case rd (pe_decode L) hdr h (sec_size_of_raw_data L) of
                  None \<Rightarrow> None
                | Some sz \<Rightarrow> Some (h, ptr, sz))))"

text \<open>
  What \<open>mutate_executable\<close> needs of the section \<open>.rdata\<close>, in an image whose headers
  are the first \<open>H\<close> bytes, whose key is the \<open>KEY_SIZE\<close> bytes at \<open>koff\<close> and whose
  section \<open>.poly\<close> is the \<open>psz\<close> bytes at \<open>poff\<close>: the headers can be searched for it;
  and if it is there with a size that is not zero, its header can be read, and the
  bytes \<^verbatim>\<open>xor_crypt_additional\<close> is to transform (none, if the size is not positive as
  an \<^verbatim>\<open>int\<close>) lie in the image after the headers and apart from the key and from
  \<open>.poly\<close>.
\<close>

definition pe_rdata_apart :: "pe_layout \<Rightarrow> nat \<Rightarrow> byte list \<Rightarrow> nat \<Rightarrow> nat \<Rightarrow> nat \<Rightarrow> bool" where
  "pe_rdata_apart L H img koff poff psz =
     (case find_section L (take H img) ''.rdata'' of
        None \<Rightarrow> False
      | Some None \<Rightarrow> True
      | Some (Some rh) \<Rightarrow>
          (case rd (pe_decode L) (take H img) rh (sec_size_of_raw_data L) of
             None \<Rightarrow> False
           | Some rsz \<Rightarrow>
               rsz = 0 \<or>
               (case rd (pe_decode L) (take H img) rh (sec_pointer_to_raw_data L) of
                  None \<Rightarrow> False
                | Some roff \<Rightarrow>
                    to_int rsz \<le> 0 \<or>
                    (H \<le> roff \<and> roff + nat (to_int rsz) \<le> length img \<and>
                     (roff + nat (to_int rsz) \<le> koff \<or> koff + KEY_SIZE \<le> roff) \<and>
                     (roff + nat (to_int rsz) \<le> poff \<or> poff + psz \<le> roff)))))"

section \<open>The sensitive-file backup classifier (\<^verbatim>\<open>llm_backup_classifier.c\<close>)\<close>

text \<open>
  \<^verbatim>\<open>#define MAX_FILES 1000\<close>, \<^verbatim>\<open>#define MAX_FILENAME_LEN 256\<close>,
  \<^verbatim>\<open>#define BACKUP_DIR "./sensitive_backups"\<close>.
\<close>

definition MAX_FILES :: int where
  "MAX_FILES = 1000"

definition MAX_FILENAME_LEN :: nat where
  "MAX_FILENAME_LEN = 256"

definition BACKUP_DIR :: string where
  "BACKUP_DIR = ''./sensitive_backups''"

text \<open>
  \<^verbatim>\<open>typedef struct { char filename[MAX_FILENAME_LEN]; char filepath[MAX_FILENAME_LEN * 2];
  int is_sensitive; char reason[512]; } FileInfo;\<close>
\<close>

record FileInfo =
  filename :: cbuf
  filepath :: cbuf
  is_sensitive :: int
  reason :: cbuf

text \<open>The sizes the declaration gives the three arrays.\<close>

definition FileInfo_sized :: "FileInfo \<Rightarrow> bool" where
  "FileInfo_sized f =
     (length (filename f) = MAX_FILENAME_LEN \<and> length (filepath f) = MAX_FILENAME_LEN * 2 \<and>
      length (reason f) = 512)"

subsection \<open>The world the classifier runs in\<close>

text \<open>
  What the C library shows the program of the file system and the clock.
  \<^item> \<open>dirs\<close>: \<^verbatim>\<open>opendir\<close> and \<^verbatim>\<open>readdir\<close>. \<open>Inl e\<close>: the directory cannot be
    opened, \<open>e\<close> the text of \<^verbatim>\<open>strerror(errno)\<close>; \<open>Inr names\<close>: the names
    \<^verbatim>\<open>readdir\<close> returns, in its order, \<open>.\<close> and \<open>..\<close> among them.
  \<^item> \<open>nodes\<close>: what a path names, without following a symbolic link (the view of
    \<^verbatim>\<open>lstat\<close>); \<open>None\<close> when there is nothing at the path or the system does not
    let the program look at it. The target of a link is the path it leads to.
  \<^item> \<open>ino\<close>: the number of the file at a path that names one. Two paths with the same
    number are hard links of one file.
  \<^item> \<open>fdata\<close>: the bytes of the file with a given number.
  \<^item> \<open>next_ino\<close>: the number the next file that is created gets.
  \<^item> \<open>readable\<close>, \<open>creatable\<close>: the system lets the program open the path with
    \<^verbatim>\<open>fopen(path, "rb")\<close>, with \<^verbatim>\<open>fopen(path, "wb")\<close>.
  \<^item> \<open>read_error\<close>: \<open>Some n\<close> when reading the stream opened on the path fails after
    \<open>n\<close> bytes, \<open>None\<close> when it does not fail. \<open>write_error\<close>: \<open>Some n\<close> when only
    the first \<open>n\<close> bytes written to the stream opened on the path reach the file.
  \<^item> \<open>mkdir_ok\<close>: \<^verbatim>\<open>mkdir(BACKUP_DIR, 0700)\<close> succeeds.
  \<^item> \<open>clock\<close>: the result of \<^verbatim>\<open>localtime\<close> at the \<open>n\<close>-th reading of the clock
    (\<open>None\<close>: a null pointer); \<open>tick\<close> counts the readings.
  \<^item> \<open>err\<close>: the lines written to the error stream.
  The progress text on standard output is not modelled.
\<close>

datatype file_type = Regular | Directory | Special

datatype node = Plain file_type | Symlink string

record tm =
  tm_sec :: int
  tm_min :: int
  tm_hour :: int
  tm_mday :: int
  tm_mon :: int
  tm_year :: int

record world =
  dirs :: "string \<Rightarrow> string + string list"
  nodes :: "string \<Rightarrow> node option"
  ino :: "string \<Rightarrow> nat"
  fdata :: "nat \<Rightarrow> byte list"
  next_ino :: nat
  readable :: "string \<Rightarrow> bool"
  creatable :: "string \<Rightarrow> bool"
  read_error :: "string \<Rightarrow> nat option"
  write_error :: "string \<Rightarrow> nat option"
  mkdir_ok :: bool
  clock :: "nat \<Rightarrow> tm option"
  tick :: nat
  err :: "string list"

text \<open>
  \<^verbatim>\<open>stat(path, &st)\<close> follows symbolic links (\<^verbatim>\<open>lstat\<close> would not): the type it
  reports is the type of the file the path resolves to. \<open>None\<close> is the return value
  \<open>-1\<close>: nothing at the path, a dangling link, or more links than the system follows
  (40 on Linux).
\<close>

fun resolve :: "nat \<Rightarrow> (string \<Rightarrow> node option) \<Rightarrow> string \<Rightarrow> file_type option" where
  "resolve 0 ns path = None"
| "resolve (Suc n) ns path =
     (case ns path of
        None \<Rightarrow> None
      | Some (Plain t) \<Rightarrow> Some t
      | Some (Symlink target) \<Rightarrow> resolve n ns target)"

definition stat :: "world \<Rightarrow> string \<Rightarrow> file_type option" where
  "stat w path = resolve 41 (nodes w) path"

text \<open>
  Opening a path follows symbolic links in the same way. \<open>follow\<close> is the path at the
  end of the links: it names a file or nothing (then the last link dangles, or the
  path itself is free); \<open>None\<close> when there are more links than the system follows.
\<close>

fun follow :: "nat \<Rightarrow> (string \<Rightarrow> node option) \<Rightarrow> string \<Rightarrow> string option" where
  "follow 0 ns path = None"
| "follow (Suc n) ns path =
     (case ns path of
        Some (Symlink target) \<Rightarrow> follow n ns target
      | _ \<Rightarrow> Some path)"

text \<open>
  \<^verbatim>\<open>fopen(path, "rb")\<close>: the type and the number of the file the path leads to;
  \<open>None\<close> for a null pointer. A directory can be opened, and reading it delivers
  nothing.
\<close>

definition fopen_rb :: "world \<Rightarrow> string \<Rightarrow> (file_type \<times> nat) option" where
  "fopen_rb w path =
     (if \<not> readable w path then None
      else
        (case follow 41 (nodes w) path of
           None \<Rightarrow> None
         | Some p \<Rightarrow>
             (case nodes w p of
                Some (Plain t) \<Rightarrow> Some (t, ino w p)
              | _ \<Rightarrow> None)))"

text \<open>
  \<^verbatim>\<open>fopen(path, "wb")\<close>: it follows the links too. Where they end at nothing a regular
  file is created there; where they end at a regular file that file is emptied,
  whatever other names it has; a directory cannot be opened for writing; a special file
  (a device) is opened and takes what is written, and no file changes. The result is
  the number of the file the stream writes to (\<open>None\<close> for a device) and the world after
  the call; \<open>None\<close> for a null pointer.
\<close>

definition fopen_wb :: "world \<Rightarrow> string \<Rightarrow> (nat option \<times> world) option" where
  "fopen_wb w path =
     (if \<not> creatable w path then None
      else
        (case follow 41 (nodes w) path of
           None \<Rightarrow> None
         | Some p \<Rightarrow>
             (case nodes w p of
                None \<Rightarrow>
                  Some (Some (next_ino w),
                        w\<lparr>nodes := (nodes w)(p \<mapsto> Plain Regular),
                          ino := (ino w)(p := next_ino w),
                          fdata := (fdata w)(next_ino w := []),
                          next_ino := next_ino w + 1\<rparr>)
              | Some (Symlink target) \<Rightarrow> None
              | Some (Plain t) \<Rightarrow>
                  (case t of
                     Regular \<Rightarrow> Some (Some (ino w p), w\<lparr>fdata := (fdata w)(ino w p := [])\<rparr>)
                   | Directory \<Rightarrow> None
                   | Special \<Rightarrow> Some (None, w)))))"

text \<open>
  The first \<open>n\<close> bytes when an error cuts a transfer after \<open>n\<close>, all of them when no
  error does.
\<close>

definition cut_at :: "nat option \<Rightarrow> byte list \<Rightarrow> byte list" where
  "cut_at lim bs = (case lim of None \<Rightarrow> bs | Some n \<Rightarrow> take n bs)"

text \<open>
  All that \<^verbatim>\<open>fread\<close> will deliver from the stream \<open>src\<close> opened on \<open>path\<close> for reading,
  in the world as it is when the reading starts; and the world once the bytes \<open>bs\<close>
  have been written to the stream \<open>dst\<close> opened on \<open>path\<close> for writing and the stream
  is closed.
\<close>

definition fread_all :: "world \<Rightarrow> string \<Rightarrow> file_type \<times> nat \<Rightarrow> byte list" where
  "fread_all w path src =
     (if fst src = Directory then [] else cut_at (read_error w path) (fdata w (snd src)))"

definition fwrite_all :: "world \<Rightarrow> string \<Rightarrow> nat option \<Rightarrow> byte list \<Rightarrow> world" where
  "fwrite_all w path dst bs =
     (case dst of
        None \<Rightarrow> w
      | Some i \<Rightarrow> w\<lparr>fdata := (fdata w)(i := cut_at (write_error w path) bs)\<rparr>)"

subsection \<open>\<^verbatim>\<open>scan_directory\<close>\<close>

text \<open>
  The body of the \<^verbatim>\<open>while\<close> loop for the entry \<open>d_name\<close>, after the test
  \<^verbatim>\<open>*file_count < MAX_FILES\<close>. \<open>full_path\<close> is a \<^verbatim>\<open>char[MAX_FILENAME_LEN * 2]\<close>
  filled by \<^verbatim>\<open>snprintf(full_path, sizeof(full_path), "%s/%s", dir_path, entry->d_name)\<close>.
  The record is stored at \<^verbatim>\<open>files[*file_count]\<close>.
\<close>

definition full_path_of :: "string \<Rightarrow> string \<Rightarrow> string" where
  "full_path_of dir_path d_name =
     snprintf_str (MAX_FILENAME_LEN * 2) (dir_path @ ''/'' @ d_name)"

text \<open>\<^verbatim>\<open>strcmp(entry->d_name, ".") == 0 || strcmp(entry->d_name, "..") == 0\<close>\<close>

definition is_dot_entry :: "string \<Rightarrow> bool" where
  "is_dot_entry d_name = (d_name = ''.'' \<or> d_name = ''..'')"

definition store_entry :: "string \<Rightarrow> string \<Rightarrow> FileInfo \<Rightarrow> FileInfo option" where
  "store_entry d_name full_path f = do {
     fn \<leftarrow> strncpy (filename f) (d_name @ [NUL]) (MAX_FILENAME_LEN - 1);
     fp \<leftarrow> strncpy (filepath f) (full_path @ [NUL]) (length (filepath f) - 1);
     if reason f = [] then None
     else Some (f\<lparr>filename := fn, filepath := fp, is_sensitive := 0,
                  reason := (reason f)[0 := NUL]\<rparr>)
   }"

fun scan_loop ::
  "world \<Rightarrow> string \<Rightarrow> string list \<Rightarrow> FileInfo list \<Rightarrow> int \<Rightarrow> (FileInfo list \<times> int) option" where
  "scan_loop w dir_path [] files file_count = Some (files, file_count)"
| "scan_loop w dir_path (d_name # rest) files file_count =
     (if file_count < MAX_FILES then
        (if is_dot_entry d_name then scan_loop w dir_path rest files file_count
         else
           (case stat w (full_path_of dir_path d_name) of
              None \<Rightarrow> scan_loop w dir_path rest files file_count
            | Some t \<Rightarrow>
                if t = Regular then
                  (if 0 \<le> file_count \<and> nat file_count < length files then
                     (case store_entry d_name (full_path_of dir_path d_name)
                             (files ! nat file_count) of
                        None \<Rightarrow> None
                      | Some f \<Rightarrow>
                          scan_loop w dir_path rest (files[nat file_count := f]) (file_count + 1))
                   else None)
                else scan_loop w dir_path rest files file_count))
      else Some (files, file_count))"

text \<open>
  \<^verbatim>\<open>void scan_directory(const char* dir_path, FileInfo* files, int* file_count)\<close>.
  When \<^verbatim>\<open>opendir\<close> fails, \<^verbatim>\<open>perror("Could not open directory")\<close> writes one line
  and the function returns with \<open>files\<close> and \<open>*file_count\<close> untouched.
\<close>

definition scan_directory ::
  "world \<Rightarrow> string \<Rightarrow> FileInfo list \<Rightarrow> int \<Rightarrow> (FileInfo list \<times> int \<times> world) option" where
  "scan_directory w dir_path files file_count =
     (case dirs w dir_path of
        Inl e \<Rightarrow>
          Some (files, file_count, w\<lparr>err := err w @ [''Could not open directory: '' @ e]\<rparr>)
      | Inr names \<Rightarrow>
          map_option (\<lambda>(fs, n). (fs, n, w)) (scan_loop w dir_path names files file_count))"

subsection \<open>\<^verbatim>\<open>classify_files_with_llm\<close>\<close>

definition sensitive_keywords :: "string list" where
  "sensitive_keywords =
     [''tax'', ''bank'', ''passport'', ''ssn'', ''confidential'',
      ''private'', ''secret'', ''password'', ''key'', ''invoice'',
      ''contract'', ''nda'', ''medical'', ''legal'', ''financial'']"

text \<open>
  \<^verbatim>\<open>for (int j = 0; lowercase_name[j]; j++) lowercase_name[j] = tolower(lowercase_name[j]);\<close>
  The loop ends at the first zero byte. With none in the array it reads
  \<^verbatim>\<open>lowercase_name[MAX_FILENAME_LEN]\<close>, outside the array.
\<close>

function lower_loop :: "cbuf \<Rightarrow> nat \<Rightarrow> cbuf option" where
  "lower_loop buf j =
     (if j < length buf
      then (if buf ! j = NUL then Some buf
            else lower_loop (buf[j := tolower (buf ! j)]) (j + 1))
      else None)"
  by pat_completeness auto
termination
  by (relation "measure (\<lambda>(buf, j). length buf - j)") auto

declare lower_loop.simps [simp del]

text \<open>
  The keyword loop, which stops at the first keyword \<^verbatim>\<open>strstr\<close> finds:
  \<^verbatim>\<open>files[i].is_sensitive = 1; snprintf(files[i].reason, sizeof(files[i].reason),
  "Contains keyword: %s", sensitive_keywords[k]); sensitive_count++; break;\<close>
\<close>

definition reason_text :: "string \<Rightarrow> string" where
  "reason_text kw = ''Contains keyword: '' @ kw"

fun keyword_loop :: "string \<Rightarrow> string list \<Rightarrow> FileInfo \<Rightarrow> int \<Rightarrow> (FileInfo \<times> int) option" where
  "keyword_loop low [] f sensitive_count = Some (f, sensitive_count)"
| "keyword_loop low (kw # kws) f sensitive_count =
     (if strstr low kw
      then do {
        r \<leftarrow> snprintf (reason f) 512 (reason_text kw);
        Some (f\<lparr>is_sensitive := 1, reason := r\<rparr>, sensitive_count + 1)
      }
      else keyword_loop low kws f sensitive_count)"

text \<open>
  One iteration of the outer loop, for the record \<open>f\<close>. \<open>lowercase_name\<close> is the
  content of the local \<^verbatim>\<open>char lowercase_name[MAX_FILENAME_LEN]\<close> when the iteration
  starts: the array is declared without an initialiser, and
  \<^verbatim>\<open>strncpy(lowercase_name, files[i].filename, MAX_FILENAME_LEN - 1)\<close> writes its first
  255 bytes only.
\<close>

definition classify_file :: "cbuf \<Rightarrow> FileInfo \<Rightarrow> int \<Rightarrow> (FileInfo \<times> int) option" where
  "classify_file lowercase_name f sensitive_count = do {
     b \<leftarrow> strncpy lowercase_name (filename f) (MAX_FILENAME_LEN - 1);
     b' \<leftarrow> lower_loop b 0;
     low \<leftarrow> c_str b';
     keyword_loop low sensitive_keywords f sensitive_count
   }"

text \<open>
  \<^verbatim>\<open>for (int i = 0; i < file_count; i++)\<close> over \<open>files\<close>; \<open>uninit i\<close> is the
  indeterminate content of \<open>lowercase_name\<close> in iteration \<open>i\<close>.
\<close>

function classify_loop ::
  "(nat \<Rightarrow> cbuf) \<Rightarrow> int \<Rightarrow> int \<Rightarrow> FileInfo list \<Rightarrow> int \<Rightarrow> (FileInfo list \<times> int) option" where
  "classify_loop uninit file_count i files sensitive_count =
     (if i < file_count then
        (if 0 \<le> i \<and> nat i < length files then
           (case classify_file (uninit (nat i)) (files ! nat i) sensitive_count of
              None \<Rightarrow> None
            | Some (f, c) \<Rightarrow> classify_loop uninit file_count (i + 1) (files[nat i := f]) c)
         else None)
      else Some (files, sensitive_count))"
  by pat_completeness auto
termination
  by (relation "measure (\<lambda>(u, file_count, i, files, c). nat (file_count - i))") auto

declare classify_loop.simps [simp del]

text \<open>\<^verbatim>\<open>int classify_files_with_llm(FileInfo* files, int file_count)\<close>: the updated
  records and the returned \<open>sensitive_count\<close>.\<close>

definition classify_files_with_llm ::
  "(nat \<Rightarrow> cbuf) \<Rightarrow> FileInfo list \<Rightarrow> int \<Rightarrow> (FileInfo list \<times> int) option" where
  "classify_files_with_llm uninit files file_count = classify_loop uninit file_count 0 files 0"

subsection \<open>\<^verbatim>\<open>create_backup_directory\<close> and \<^verbatim>\<open>create_backup\<close>\<close>

text \<open>\<^verbatim>\<open>if (stat(BACKUP_DIR, &st) == -1) { mkdir(BACKUP_DIR, 0700); ... }\<close>; the
  result of \<^verbatim>\<open>mkdir\<close> is not looked at.\<close>

definition create_backup_directory :: "world \<Rightarrow> world" where
  "create_backup_directory w =
     (if stat w BACKUP_DIR = None \<and> mkdir_ok w
      then w\<lparr>nodes := (nodes w)(BACKUP_DIR \<mapsto> Plain Directory),
             ino := (ino w)(BACKUP_DIR := next_ino w),
             next_ino := next_ino w + 1\<rparr>
      else w)"

text \<open>
  The name \<^verbatim>\<open>snprintf(backup_path, sizeof(backup_path), "%s/%04d%02d%02d_%02d%02d%02d_%s",
  BACKUP_DIR, t->tm_year + 1900, t->tm_mon + 1, t->tm_mday, t->tm_hour, t->tm_min,
  t->tm_sec, file->filename)\<close> builds in \<^verbatim>\<open>char backup_path[MAX_FILENAME_LEN * 3]\<close>.
\<close>

definition backup_path_of :: "tm \<Rightarrow> string \<Rightarrow> string option" where
  "backup_path_of t name = do {
     year \<leftarrow> add_int (tm_year t) 1900;
     mon \<leftarrow> add_int (tm_mon t) 1;
     Some (snprintf_str (MAX_FILENAME_LEN * 3)
       (BACKUP_DIR @ ''/'' @ fmt_0d 4 year @ fmt_0d 2 mon @ fmt_0d 2 (tm_mday t) @ ''_'' @
        fmt_0d 2 (tm_hour t) @ fmt_0d 2 (tm_min t) @ fmt_0d 2 (tm_sec t) @ ''_'' @ name))
   }"

text \<open>
  \<^verbatim>\<open>while ((bytes = fread(buffer, 1, sizeof(buffer), src)) > 0) fwrite(buffer, 1, bytes, dst);\<close>
  with \<^verbatim>\<open>char buffer[8192]\<close>: \<open>src\<close> is what \<^verbatim>\<open>fread\<close> has still to deliver,
  \<open>dst\<close> what has been handed to \<^verbatim>\<open>fwrite\<close>, whose result is not looked at.
\<close>

function copy_loop :: "byte list \<Rightarrow> byte list \<Rightarrow> byte list" where
  "copy_loop src dst =
     (if length (take 8192 src) > 0
      then copy_loop (drop 8192 src) (dst @ take 8192 src)
      else dst)"
  by pat_completeness auto
termination
  by (relation "measure (\<lambda>(src, dst). length src)") auto

declare copy_loop.simps [simp del]

text \<open>
  \<^verbatim>\<open>void create_backup(FileInfo* file)\<close>. The source is opened with
  \<^verbatim>\<open>fopen(file->filepath, "rb")\<close>, then the destination with
  \<^verbatim>\<open>fopen(backup_path, "wb")\<close>; the source is read after that, so it is read as the
  second \<^verbatim>\<open>fopen\<close> has left it. The two failures print a line on standard output and
  return.
\<close>

definition create_backup :: "FileInfo \<Rightarrow> world \<Rightarrow> world option" where
  "create_backup file w = do {
     t \<leftarrow> clock w (tick w);
     name \<leftarrow> c_str (filename file);
     backup_path \<leftarrow> backup_path_of t name;
     path \<leftarrow> c_str (filepath file);
     let w1 = w\<lparr>tick := tick w + 1\<rparr>;
     (case fopen_rb w1 path of
        None \<Rightarrow> Some w1
      | Some src \<Rightarrow>
          (case fopen_wb w1 backup_path of
             None \<Rightarrow> Some w1
           | Some (dst, w2) \<Rightarrow>
               Some (fwrite_all w2 backup_path dst (copy_loop (fread_all w2 path src) []))))
   }"

subsection \<open>\<^verbatim>\<open>main\<close>\<close>

text \<open>The backup loop of \<^verbatim>\<open>main\<close>:
  \<^verbatim>\<open>for (int i = 0; i < file_count; i++) if (files[i].is_sensitive) { ...; create_backup(&files[i]); backed_up++; }\<close>\<close>

function backup_loop :: "FileInfo list \<Rightarrow> int \<Rightarrow> int \<Rightarrow> world \<Rightarrow> world option" where
  "backup_loop files file_count i w =
     (if i < file_count then
        (if 0 \<le> i \<and> nat i < length files then
           (if is_sensitive (files ! nat i) \<noteq> 0
            then (case create_backup (files ! nat i) w of
                    None \<Rightarrow> None
                  | Some w' \<Rightarrow> backup_loop files file_count (i + 1) w')
            else backup_loop files file_count (i + 1) w)
         else None)
      else Some w)"
  by pat_completeness auto
termination
  by (relation "measure (\<lambda>(files, file_count, i, w). nat (file_count - i))") auto

declare backup_loop.simps [simp del]

text \<open>
  \<^verbatim>\<open>int main(int argc, char** argv)\<close>: the exit code and the world it leaves.
  \<open>argv\<close> is the argument vector (\<open>argc\<close> its length), \<open>files0\<close> the indeterminate
  content of the local \<^verbatim>\<open>FileInfo files[MAX_FILES]\<close>, \<open>uninit\<close> that of
  \<open>lowercase_name\<close>. \<open>None\<close>: the run left defined behaviour.
\<close>

definition main :: "string list \<Rightarrow> FileInfo list \<Rightarrow> (nat \<Rightarrow> cbuf) \<Rightarrow> world \<Rightarrow> (int \<times> world) option" where
  "main argv files0 uninit w =
     (let scan_dir = (if length argv > 1 then argv ! 1 else ''.'') in
      do {
        (files, file_count, w1) \<leftarrow> scan_directory w scan_dir files0 0;
        if file_count = 0 then Some (0, w1)
        else do {
          (files', sensitive_count) \<leftarrow> classify_files_with_llm uninit files file_count;
          if sensitive_count = 0 then Some (0, w1)
          else do {
            w3 \<leftarrow> backup_loop files' file_count 0 (create_backup_directory w1);
            Some (0, w3)
          }
        }
      })"

subsection \<open>What classification is to compute\<close>

text \<open>
  The classification rule in the words of its description, to compare
  \<open>classify_files_with_llm\<close> with: \<open>hay\<close> contains \<open>needle\<close> as a substring;
  \<open>first_keyword\<close> is the first keyword of the list, in its order, that the
  lower-cased name contains; \<open>spec_classify\<close> marks the record with that keyword's
  reason, and leaves a record with no such keyword as it is. The reason is written over
  the start of the \<open>reason\<close> array; the bytes after its terminator stay.
\<close>

definition contains_str :: "string \<Rightarrow> string \<Rightarrow> bool" where
  "contains_str hay needle = (\<exists>ps ss. hay = ps @ needle @ ss)"

definition first_keyword :: "string \<Rightarrow> string option" where
  "first_keyword name = find (\<lambda>kw. contains_str (map tolower name) kw) sensitive_keywords"

definition spec_classify :: "FileInfo \<Rightarrow> FileInfo" where
  "spec_classify f =
     (case first_keyword (the (c_str (filename f))) of
        None \<Rightarrow> f
      | Some kw \<Rightarrow>
          f\<lparr>is_sensitive := 1,
            reason := reason_text kw @ NUL # drop (length (reason_text kw) + 1) (reason f)\<rparr>)"

text \<open>The records that count as sensitive: those with a first keyword.\<close>

definition flagged :: "FileInfo \<Rightarrow> bool" where
  "flagged f = (first_keyword (the (c_str (filename f))) \<noteq> None)"

text \<open>A record \<open>classify_files_with_llm\<close> handles inside its arrays: the
  \<open>reason\<close> array has its declared size, and \<open>filename\<close> holds a string of fewer than
  \<open>MAX_FILENAME_LEN - 1\<close> bytes, which \<^verbatim>\<open>strncpy\<close> copies with its terminator.\<close>

definition classifiable :: "FileInfo \<Rightarrow> bool" where
  "classifiable f =
     (length (reason f) = 512 \<and>
      (case c_str (filename f) of None \<Rightarrow> False | Some name \<Rightarrow> length name < MAX_FILENAME_LEN - 1))"

subsection \<open>What the scan is to retain\<close>

text \<open>
  An entry is retained when it is neither \<open>.\<close> nor \<open>..\<close> and \<^verbatim>\<open>stat\<close> on its full
  path reports a regular file; \<open>scan_kept\<close> are the retained names in the order of
  \<^verbatim>\<open>readdir\<close>, up to the capacity of the array. \<open>scanned\<close> is the record
  \<open>scan_directory\<close> stores for a name over the old content of its slot.
\<close>

definition retained :: "world \<Rightarrow> string \<Rightarrow> string \<Rightarrow> bool" where
  "retained w dir_path d_name =
     (\<not> is_dot_entry d_name \<and> stat w (full_path_of dir_path d_name) = Some Regular)"

definition scanned :: "string \<Rightarrow> string \<Rightarrow> FileInfo \<Rightarrow> FileInfo" where
  "scanned dir_path d_name f = the (store_entry d_name (full_path_of dir_path d_name) f)"

definition scan_kept :: "world \<Rightarrow> string \<Rightarrow> string list \<Rightarrow> string list" where
  "scan_kept w dir_path names = take 1000 (filter (retained w dir_path) names)"

text \<open>
  The same in the words of the description of the scan. \<open>entry_path\<close> is the full
  path of an entry, the directory's path, a slash and the entry's name;
  \<open>regular_entries\<close> are the entries, in the order of \<^verbatim>\<open>readdir\<close> and up to the
  capacity, that are neither \<open>.\<close> nor \<open>..\<close> and that \<^verbatim>\<open>stat\<close> on their full path
  reports as regular files. \<open>c_string\<close>: a string as C has it, without a zero byte.
\<close>

definition entry_path :: "string \<Rightarrow> string \<Rightarrow> string" where
  "entry_path dir_path d_name = dir_path @ ''/'' @ d_name"

definition regular_entries :: "world \<Rightarrow> string \<Rightarrow> string list \<Rightarrow> string list" where
  "regular_entries w dir_path names =
     take 1000 (filter (\<lambda>d. \<not> is_dot_entry d \<and> stat w (entry_path dir_path d) = Some Regular) names)"

definition c_string :: "string \<Rightarrow> bool" where
  "c_string s = (NUL \<notin> set s)"

subsection \<open>What a backup is to be called\<close>

text \<open>
  The backup's name in the words of its description: \<open>YYYYMMDD_HHMMSS_\<close> and the
  original filename, every field of the time stamp written with its full number of
  decimal digits. \<open>calendar_time\<close> are the values \<^verbatim>\<open>localtime\<close> gives the fields of a
  \<^verbatim>\<open>struct tm\<close> for a year of four digits.
\<close>

definition two_digits :: "nat \<Rightarrow> string" where
  "two_digits n = [digit_char (n div 10), digit_char (n mod 10)]"

definition four_digits :: "nat \<Rightarrow> string" where
  "four_digits n =
     [digit_char (n div 1000), digit_char (n div 100 mod 10), digit_char (n div 10 mod 10),
      digit_char (n mod 10)]"

definition time_stamp :: "tm \<Rightarrow> string" where
  "time_stamp t =
     four_digits (nat (tm_year t + 1900)) @ two_digits (nat (tm_mon t + 1)) @
     two_digits (nat (tm_mday t)) @ ''_'' @
     two_digits (nat (tm_hour t)) @ two_digits (nat (tm_min t)) @ two_digits (nat (tm_sec t))"

definition calendar_time :: "tm \<Rightarrow> bool" where
  "calendar_time t =
     (0 \<le> tm_year t + 1900 \<and> tm_year t + 1900 \<le> 9999 \<and> 0 \<le> tm_mon t \<and> tm_mon t \<le> 11 \<and>
      1 \<le> tm_mday t \<and> tm_mday t \<le> 31 \<and> 0 \<le> tm_hour t \<and> tm_hour t \<le> 23 \<and>
      0 \<le> tm_min t \<and> tm_min t \<le> 59 \<and> 0 \<le> tm_sec t \<and> tm_sec t \<le> 60)"


subsection \<open>Runs of the classifier that stay inside defined behaviour\<close>

text \<open>
  \<open>scan_dir_of\<close> is the directory \<open>main\<close> scans. \<open>clock_ok\<close>: \<^verbatim>\<open>localtime\<close> never
  returns a null pointer and always gives a calendar time of a four-digit year.
  \<open>names_fit\<close>: every retained entry has a name of fewer than 255 bytes and a full path
  of fewer than 511, so that \<^verbatim>\<open>strncpy\<close> stores both with their terminators.
\<close>

definition scan_dir_of :: "string list \<Rightarrow> string" where
  "scan_dir_of argv = (if length argv > 1 then argv ! 1 else ''.'')"

definition clock_ok :: "world \<Rightarrow> bool" where
  "clock_ok w = (\<forall>n. case clock w n of None \<Rightarrow> False | Some t \<Rightarrow> calendar_time t)"

definition names_fit :: "world \<Rightarrow> string \<Rightarrow> string list \<Rightarrow> bool" where
  "names_fit w dir_path names =
     list_all (\<lambda>d. NUL \<notin> set d \<and> length d < MAX_FILENAME_LEN - 1 \<and>
                    NUL \<notin> set (full_path_of dir_path d) \<and>
                    length (full_path_of dir_path d) < MAX_FILENAME_LEN * 2 - 1)
              (scan_kept w dir_path names)"

section \<open>Example images\<close>

text \<open>A small ELF-64 image with the sections \<open>.poly\<close>, \<open>.data\<close>, \<open>.rodata\<close>, \<open>.bss\<close> and \<open>.shstrtab\<close>: the header, the bytes of the sections from index 64 on, the section header table at index 136.\<close>

definition demo_elf :: "byte list" where
  "demo_elf =
     [0x7F, 0x45, 0x4C, 0x46, 0x02, 0x01, 0x01, 0x00, 0x00, 0x00, 0x00, 0x00, 0x00, 0x00, 0x00, 0x00,
      0x00, 0x00, 0x00, 0x00, 0x00, 0x00, 0x00, 0x00, 0x00, 0x00, 0x00, 0x00, 0x00, 0x00, 0x00, 0x00,
      0x00, 0x00, 0x00, 0x00, 0x00, 0x00, 0x00, 0x00, 0x88, 0x00, 0x00, 0x00, 0x00, 0x00, 0x00, 0x00,
      0x00, 0x00, 0x00, 0x00, 0x00, 0x00, 0x00, 0x00, 0x00, 0x00, 0x40, 0x00, 0x06, 0x00, 0x05, 0x00,
      0x55, 0x48, 0x89, 0xE5, 0x90, 0x90, 0x5D, 0xC3, 0x01, 0x01, 0x01, 0x01, 0x01, 0x01, 0x01, 0x01,
      0x00, 0x11, 0x22, 0x33, 0x44, 0x55, 0x66, 0x77, 0x48, 0x69, 0x20, 0x74, 0x68, 0x65, 0x72, 0x65,
      0x00, 0x2E, 0x70, 0x6F, 0x6C, 0x79, 0x00, 0x2E, 0x64, 0x61, 0x74, 0x61, 0x00, 0x2E, 0x72, 0x6F,
      0x64, 0x61, 0x74, 0x61, 0x00, 0x2E, 0x62, 0x73, 0x73, 0x00, 0x2E, 0x73, 0x68, 0x73, 0x74, 0x72,
      0x74, 0x61, 0x62, 0x00, 0x00, 0x00, 0x00, 0x00, 0x00, 0x00, 0x00, 0x00, 0x01, 0x00, 0x00, 0x00,
      0x00, 0x00, 0x00, 0x00, 0x00, 0x00, 0x00, 0x00, 0x00, 0x00, 0x00, 0x00, 0x00, 0x00, 0x00, 0x00,
      0x00, 0x00, 0x00, 0x00, 0x00, 0x00, 0x00, 0x00, 0x00, 0x00, 0x00, 0x00, 0x00, 0x00, 0x00, 0x00,
      0x00, 0x00, 0x00, 0x00, 0x00, 0x00, 0x00, 0x00, 0x01, 0x00, 0x00, 0x00, 0x00, 0x00, 0x00, 0x00,
      0x00, 0x00, 0x00, 0x00, 0x00, 0x00, 0x00, 0x00, 0x01, 0x00, 0x00, 0x00, 0x01, 0x00, 0x00, 0x00,
      0x00, 0x00, 0x00, 0x00, 0x00, 0x00, 0x00, 0x00, 0x40, 0x10, 0x00, 0x00, 0x00, 0x00, 0x00, 0x00,
      0x40, 0x00, 0x00, 0x00, 0x00, 0x00, 0x00, 0x00, 0x08, 0x00, 0x00, 0x00, 0x00, 0x00, 0x00, 0x00,
      0x00, 0x00, 0x00, 0x00, 0x00, 0x00, 0x00, 0x00, 0x01, 0x00, 0x00, 0x00, 0x00, 0x00, 0x00, 0x00,
      0x00, 0x00, 0x00, 0x00, 0x00, 0x00, 0x00, 0x00, 0x07, 0x00, 0x00, 0x00, 0x01, 0x00, 0x00, 0x00,
      0x00, 0x00, 0x00, 0x00, 0x00, 0x00, 0x00, 0x00, 0x48, 0x10, 0x00, 0x00, 0x00, 0x00, 0x00, 0x00,
      0x48, 0x00, 0x00, 0x00, 0x00, 0x00, 0x00, 0x00, 0x10, 0x00, 0x00, 0x00, 0x00, 0x00, 0x00, 0x00,
      0x00, 0x00, 0x00, 0x00, 0x00, 0x00, 0x00, 0x00, 0x01, 0x00, 0x00, 0x00, 0x00, 0x00, 0x00, 0x00,
      0x00, 0x00, 0x00, 0x00, 0x00, 0x00, 0x00, 0x00, 0x0D, 0x00, 0x00, 0x00, 0x01, 0x00, 0x00, 0x00,
      0x00, 0x00, 0x00, 0x00, 0x00, 0x00, 0x00, 0x00, 0x58, 0x10, 0x00, 0x00, 0x00, 0x00, 0x00, 0x00,
      0x58, 0x00, 0x00, 0x00, 0x00, 0x00, 0x00, 0x00, 0x08, 0x00, 0x00, 0x00, 0x00, 0x00, 0x00, 0x00,
      0x00, 0x00, 0x00, 0x00, 0x00, 0x00, 0x00, 0x00, 0x01, 0x00, 0x00, 0x00, 0x00, 0x00, 0x00, 0x00,
      0x00, 0x00, 0x00, 0x00, 0x00, 0x00, 0x00, 0x00, 0x15, 0x00, 0x00, 0x00, 0x01, 0x00, 0x00, 0x00,
      0x00, 0x00, 0x00, 0x00, 0x00, 0x00, 0x00, 0x00, 0x60, 0x10, 0x00, 0x00, 0x00, 0x00, 0x00, 0x00,
      0x60, 0x00, 0x00, 0x00, 0x00, 0x00, 0x00, 0x00, 0x04, 0x00, 0x00, 0x00, 0x00, 0x00, 0x00, 0x00,
      0x00, 0x00, 0x00, 0x00, 0x00, 0x00, 0x00, 0x00, 0x01, 0x00, 0x00, 0x00, 0x00, 0x00, 0x00, 0x00,
      0x00, 0x00, 0x00, 0x00, 0x00, 0x00, 0x00, 0x00, 0x1A, 0x00, 0x00, 0x00, 0x01, 0x00, 0x00, 0x00,
      0x00, 0x00, 0x00, 0x00, 0x00, 0x00, 0x00, 0x00, 0x00, 0x00, 0x00, 0x00, 0x00, 0x00, 0x00, 0x00,
      0x60, 0x00, 0x00, 0x00, 0x00, 0x00, 0x00, 0x00, 0x24, 0x00, 0x00, 0x00, 0x00, 0x00, 0x00, 0x00,
      0x00, 0x00, 0x00, 0x00, 0x00, 0x00, 0x00, 0x00, 0x01, 0x00, 0x00, 0x00, 0x00, 0x00, 0x00, 0x00,
      0x00, 0x00, 0x00, 0x00, 0x00, 0x00, 0x00, 0x00]"

text \<open>The same image with the section \<open>.poly\<close> named \<open>.text\<close>.\<close>

definition demo_elf_no_poly :: "byte list" where
  "demo_elf_no_poly =
     [0x7F, 0x45, 0x4C, 0x46, 0x02, 0x01, 0x01, 0x00, 0x00, 0x00, 0x00, 0x00, 0x00, 0x00, 0x00, 0x00,
      0x00, 0x00, 0x00, 0x00, 0x00, 0x00, 0x00, 0x00, 0x00, 0x00, 0x00, 0x00, 0x00, 0x00, 0x00, 0x00,
      0x00, 0x00, 0x00, 0x00, 0x00, 0x00, 0x00, 0x00, 0x88, 0x00, 0x00, 0x00, 0x00, 0x00, 0x00, 0x00,
      0x00, 0x00, 0x00, 0x00, 0x00, 0x00, 0x00, 0x00, 0x00, 0x00, 0x40, 0x00, 0x06, 0x00, 0x05, 0x00,
      0x55, 0x48, 0x89, 0xE5, 0x90, 0x90, 0x5D, 0xC3, 0x01, 0x01, 0x01, 0x01, 0x01, 0x01, 0x01, 0x01,
      0x00, 0x11, 0x22, 0x33, 0x44, 0x55, 0x66, 0x77, 0x48, 0x69, 0x20, 0x74, 0x68, 0x65, 0x72, 0x65,
      0x00, 0x2E, 0x74, 0x65, 0x78, 0x74, 0x00, 0x2E, 0x64, 0x61, 0x74, 0x61, 0x00, 0x2E, 0x72, 0x6F,
      0x64, 0x61, 0x74, 0x61, 0x00, 0x2E, 0x62, 0x73, 0x73, 0x00, 0x2E, 0x73, 0x68, 0x73, 0x74, 0x72,
      0x74, 0x61, 0x62, 0x00, 0x00, 0x00, 0x00, 0x00, 0x00, 0x00, 0x00, 0x00, 0x01, 0x00, 0x00, 0x00,
      0x00, 0x00, 0x00, 0x00, 0x00, 0x00, 0x00, 0x00, 0x00, 0x00, 0x00, 0x00, 0x00, 0x00, 0x00, 0x00,
      0x00, 0x00, 0x00, 0x00, 0x00, 0x00, 0x00, 0x00, 0x00, 0x00, 0x00, 0x00, 0x00, 0x00, 0x00, 0x00,
      0x00, 0x00, 0x00, 0x00, 0x00, 0x00, 0x00, 0x00, 0x01, 0x00, 0x00, 0x00, 0x00, 0x00, 0x00, 0x00,
      0x00, 0x00, 0x00, 0x00, 0x00, 0x00, 0x00, 0x00, 0x01, 0x00, 0x00, 0x00, 0x01, 0x00, 0x00, 0x00,
      0x00, 0x00, 0x00, 0x00, 0x00, 0x00, 0x00, 0x00, 0x40, 0x10, 0x00, 0x00, 0x00, 0x00, 0x00, 0x00,
      0x40, 0x00, 0x00, 0x00, 0x00, 0x00, 0x00, 0x00, 0x08, 0x00, 0x00, 0x00, 0x00, 0x00, 0x00, 0x00,
      0x00, 0x00, 0x00, 0x00, 0x00, 0x00, 0x00, 0x00, 0x01, 0x00, 0x00, 0x00, 0x00, 0x00, 0x00, 0x00,
      0x00, 0x00, 0x00, 0x00, 0x00, 0x00, 0x00, 0x00, 0x07, 0x00, 0x00, 0x00, 0x01, 0x00, 0x00, 0x00,
      0x00, 0x00, 0x00, 0x00, 0x00, 0x00, 0x00, 0x00, 0x48, 0x10, 0x00, 0x00, 0x00, 0x00, 0x00, 0x00,
      0x48, 0x00, 0x00, 0x00, 0x00, 0x00, 0x00, 0x00, 0x10, 0x00, 0x00, 0x00, 0x00, 0x00, 0x00, 0x00,
      0x00, 0x00, 0x00, 0x00, 0x00, 0x00, 0x00, 0x00, 0x01, 0x00, 0x00, 0x00, 0x00, 0x00, 0x00, 0x00,
      0x00, 0x00, 0x00, 0x00, 0x00, 0x00, 0x00, 0x00, 0x0D, 0x00, 0x00, 0x00, 0x01, 0x00, 0x00, 0x00,
      0x00, 0x00, 0x00, 0x00, 0x00, 0x00, 0x00, 0x00, 0x58, 0x10, 0x00, 0x00, 0x00, 0x00, 0x00, 0x00,
      0x58, 0x00, 0x00, 0x00, 0x00, 0x00, 0x00, 0x00, 0x08, 0x00, 0x00, 0x00, 0x00, 0x00, 0x00, 0x00,
      0x00, 0x00, 0x00, 0x00, 0x00, 0x00, 0x00, 0x00, 0x01, 0x00, 0x00, 0x00, 0x00, 0x00, 0x00, 0x00,
      0x00, 0x00, 0x00, 0x00, 0x00, 0x00, 0x00, 0x00, 0x15, 0x00, 0x00, 0x00, 0x01, 0x00, 0x00, 0x00,
      0x00, 0x00, 0x00, 0x00, 0x00, 0x00, 0x00, 0x00, 0x60, 0x10, 0x00, 0x00, 0x00, 0x00, 0x00, 0x00,
      0x60, 0x00, 0x00, 0x00, 0x00, 0x00, 0x00, 0x00, 0x04, 0x00, 0x00, 0x00, 0x00, 0x00, 0x00, 0x00,
      0x00, 0x00, 0x00, 0x00, 0x00, 0x00, 0x00, 0x00, 0x01, 0x00, 0x00, 0x00, 0x00, 0x00, 0x00, 0x00,
      0x00, 0x00, 0x00, 0x00, 0x00, 0x00, 0x00, 0x00, 0x1A, 0x00, 0x00, 0x00, 0x01, 0x00, 0x00, 0x00,
      0x00, 0x00, 0x00, 0x00, 0x00, 0x00, 0x00, 0x00, 0x00, 0x00, 0x00, 0x00, 0x00, 0x00, 0x00, 0x00,
      0x60, 0x00, 0x00, 0x00, 0x00, 0x00, 0x00, 0x00, 0x24, 0x00, 0x00, 0x00, 0x00, 0x00, 0x00, 0x00,
      0x00, 0x00, 0x00, 0x00, 0x00, 0x00, 0x00, 0x00, 0x01, 0x00, 0x00, 0x00, 0x00, 0x00, 0x00, 0x00,
      0x00, 0x00, 0x00, 0x00, 0x00, 0x00, 0x00, 0x00]"

text \<open>A small PE image: DOS and NT headers, three section headers (\<open>.data\<close>, \<open>.poly\<close>, \<open>.rdata\<close>) inside the first 512 bytes, then the raw data: \<open>.data\<close> at 512 (its first eight bytes are the key), \<open>.poly\<close> at 528, stored encrypted under that key, \<open>.rdata\<close> at 544.\<close>

definition demo_pe :: "byte list" where
  "demo_pe =
     [0x4D, 0x5A, 0x00, 0x00, 0x00, 0x00, 0x00, 0x00, 0x00, 0x00, 0x00, 0x00, 0x00, 0x00, 0x00, 0x00,
      0x00, 0x00, 0x00, 0x00, 0x00, 0x00, 0x00, 0x00, 0x00, 0x00, 0x00, 0x00, 0x00, 0x00, 0x00, 0x00,
      0x00, 0x00, 0x00, 0x00, 0x00, 0x00, 0x00, 0x00, 0x00, 0x00, 0x00, 0x00, 0x00, 0x00, 0x00, 0x00,
      0x00, 0x00, 0x00, 0x00, 0x00, 0x00, 0x00, 0x00, 0x00, 0x00, 0x00, 0x00, 0x40, 0x00, 0x00, 0x00,
      0x50, 0x45, 0x00, 0x00, 0x64, 0x86, 0x03, 0x00, 0x00, 0x00, 0x00, 0x00, 0x00, 0x00, 0x00, 0x00,
      0x00, 0x00, 0x00, 0x00, 0xF0, 0x00, 0x00, 0x00, 0x00, 0x00, 0x00, 0x00, 0x00, 0x00, 0x00, 0x00,
      0x00, 0x00, 0x00, 0x00, 0x00, 0x00, 0x00, 0x00, 0x00, 0x00, 0x00, 0x00, 0x00, 0x00, 0x00, 0x00,
      0x00, 0x00, 0x00, 0x00, 0x00, 0x00, 0x00, 0x00, 0x00, 0x00, 0x00, 0x00, 0x00, 0x00, 0x00, 0x00,
      0x00, 0x00, 0x00, 0x00, 0x00, 0x00, 0x00, 0x00, 0x00, 0x00, 0x00, 0x00, 0x00, 0x00, 0x00, 0x00,
      0x00, 0x00, 0x00, 0x00, 0x00, 0x00, 0x00, 0x00, 0x00, 0x00, 0x00, 0x00, 0x00, 0x00, 0x00, 0x00,
      0x00, 0x00, 0x00, 0x00, 0x00, 0x00, 0x00, 0x00, 0x00, 0x00, 0x00, 0x00, 0x00, 0x00, 0x00, 0x00,
      0x00, 0x00, 0x00, 0x00, 0x00, 0x00, 0x00, 0x00, 0x00, 0x00, 0x00, 0x00, 0x00, 0x00, 0x00, 0x00,
      0x00, 0x00, 0x00, 0x00, 0x00, 0x00, 0x00, 0x00, 0x00, 0x00, 0x00, 0x00, 0x00, 0x00, 0x00, 0x00,
      0x00, 0x00, 0x00, 0x00, 0x00, 0x00, 0x00, 0x00, 0x00, 0x00, 0x00, 0x00, 0x00, 0x00, 0x00, 0x00,
      0x00, 0x00, 0x00, 0x00, 0x00, 0x00, 0x00, 0x00, 0x00, 0x00, 0x00, 0x00, 0x00, 0x00, 0x00, 0x00,
      0x00, 0x00, 0x00, 0x00, 0x00, 0x00, 0x00, 0x00, 0x00, 0x00, 0x00, 0x00, 0x00, 0x00, 0x00, 0x00,
      0x00, 0x00, 0x00, 0x00, 0x00, 0x00, 0x00, 0x00, 0x00, 0x00, 0x00, 0x00, 0x00, 0x00, 0x00, 0x00,
      0x00, 0x00, 0x00, 0x00, 0x00, 0x00, 0x00, 0x00, 0x00, 0x00, 0x00, 0x00, 0x00, 0x00, 0x00, 0x00,
      0x00, 0x00, 0x00, 0x00, 0x00, 0x00, 0x00, 0x00, 0x00, 0x00, 0x00, 0x00, 0x00, 0x00, 0x00, 0x00,
      0x00, 0x00, 0x00, 0x00, 0x00, 0x00, 0x00, 0x00, 0x00, 0x00, 0x00, 0x00, 0x00, 0x00, 0x00, 0x00,
      0x00, 0x00, 0x00, 0x00, 0x00, 0x00, 0x00, 0x00, 0x2E, 0x64, 0x61, 0x74, 0x61, 0x00, 0x00, 0x00,
      0x10, 0x00, 0x00, 0x00, 0x00, 0x10, 0x00, 0x00, 0x10, 0x00, 0x00, 0x00, 0x00, 0x02, 0x00, 0x00,
      0x00, 0x00, 0x00, 0x00, 0x00, 0x00, 0x00, 0x00, 0x00, 0x00, 0x00, 0x00, 0x40, 0x00, 0x00, 0xC0,
      0x2E, 0x70, 0x6F, 0x6C, 0x79, 0x00, 0x00, 0x00, 0x10, 0x00, 0x00, 0x00, 0x00, 0x20, 0x00, 0x00,
      0x10, 0x00, 0x00, 0x00, 0x10, 0x02, 0x00, 0x00, 0x00, 0x00, 0x00, 0x00, 0x00, 0x00, 0x00, 0x00,
      0x00, 0x00, 0x00, 0x00, 0x40, 0x00, 0x00, 0xC0, 0x2E, 0x72, 0x64, 0x61, 0x74, 0x61, 0x00, 0x00,
      0x08, 0x00, 0x00, 0x00, 0x00, 0x30, 0x00, 0x00, 0x08, 0x00, 0x00, 0x00, 0x20, 0x02, 0x00, 0x00,
      0x00, 0x00, 0x00, 0x00, 0x00, 0x00, 0x00, 0x00, 0x00, 0x00, 0x00, 0x00, 0x40, 0x00, 0x00, 0xC0,
      0x00, 0x00, 0x00, 0x00, 0x00, 0x00, 0x00, 0x00, 0x00, 0x00, 0x00, 0x00, 0x00, 0x00, 0x00, 0x00,
      0x00, 0x00, 0x00, 0x00, 0x00, 0x00, 0x00, 0x00, 0x00, 0x00, 0x00, 0x00, 0x00, 0x00, 0x00, 0x00,
      0x00, 0x00, 0x00, 0x00, 0x00, 0x00, 0x00, 0x00, 0x00, 0x00, 0x00, 0x00, 0x00, 0x00, 0x00, 0x00,
      0x00, 0x00, 0x00, 0x00, 0x00, 0x00, 0x00, 0x00, 0x00, 0x00, 0x00, 0x00, 0x00, 0x00, 0x00, 0x00,
      0x10, 0x00, 0xFF, 0x42, 0x07, 0x99, 0x01, 0xFE, 0x00, 0xAA, 0xBB, 0xCC, 0xDD, 0xEE, 0xFF, 0x00,
      0x5A, 0xB7, 0x77, 0xA4, 0x4E, 0x1B, 0xEC, 0xDD, 0x9F, 0x6F, 0xB6, 0xC2, 0xC2, 0xB8, 0x5D, 0x3E,
      0x48, 0x69, 0x20, 0x74, 0x68, 0x65, 0x72, 0x65]"

text \<open>The same image with the section \<open>.poly\<close> named \<open>.text\<close>.\<close>

definition demo_pe_no_poly :: "byte list" where
  "demo_pe_no_poly =
     [0x4D, 0x5A, 0x00, 0x00, 0x00, 0x00, 0x00, 0x00, 0x00, 0x00, 0x00, 0x00, 0x00, 0x00, 0x00, 0x00,
      0x00, 0x00, 0x00, 0x00, 0x00, 0x00, 0x00, 0x00, 0x00, 0x00, 0x00, 0x00, 0x00, 0x00, 0x00, 0x00,
      0x00, 0x00, 0x00, 0x00, 0x00, 0x00, 0x00, 0x00, 0x00, 0x00, 0x00, 0x00, 0x00, 0x00, 0x00, 0x00,
      0x00, 0x00, 0x00, 0x00, 0x00, 0x00, 0x00, 0x00, 0x00, 0x00, 0x00, 0x00, 0x40, 0x00, 0x00, 0x00,
      0x50, 0x45, 0x00, 0x00, 0x64, 0x86, 0x03, 0x00, 0x00, 0x00, 0x00, 0x00, 0x00, 0x00, 0x00, 0x00,
      0x00, 0x00, 0x00, 0x00, 0xF0, 0x00, 0x00, 0x00, 0x00, 0x00, 0x00, 0x00, 0x00, 0x00, 0x00, 0x00,
      0x00, 0x00, 0x00, 0x00, 0x00, 0x00, 0x00, 0x00, 0x00, 0x00, 0x00, 0x00, 0x00, 0x00, 0x00, 0x00,
      0x00, 0x00, 0x00, 0x00, 0x00, 0x00, 0x00, 0x00, 0x00, 0x00, 0x00, 0x00, 0x00, 0x00, 0x00, 0x00,
      0x00, 0x00, 0x00, 0x00, 0x00, 0x00, 0x00, 0x00, 0x00, 0x00, 0x00, 0x00, 0x00, 0x00, 0x00, 0x00,
      0x00, 0x00, 0x00, 0x00, 0x00, 0x00, 0x00, 0x00, 0x00, 0x00, 0x00, 0x00, 0x00, 0x00, 0x00, 0x00,
      0x00, 0x00, 0x00, 0x00, 0x00, 0x00, 0x00, 0x00, 0x00, 0x00, 0x00, 0x00, 0x00, 0x00, 0x00, 0x00,
      0x00, 0x00, 0x00, 0x00, 0x00, 0x00, 0x00, 0x00, 0x00, 0x00, 0x00, 0x00, 0x00, 0x00, 0x00, 0x00,
      0x00, 0x00, 0x00, 0x00, 0x00, 0x00, 0x00, 0x00, 0x00, 0x00, 0x00, 0x00, 0x00, 0x00, 0x00, 0x00,
      0x00, 0x00, 0x00, 0x00, 0x00, 0x00, 0x00, 0x00, 0x00, 0x00, 0x00, 0x00, 0x00, 0x00, 0x00, 0x00,
      0x00, 0x00, 0x00, 0x00, 0x00, 0x00, 0x00, 0x00, 0x00, 0x00, 0x00, 0x00, 0x00, 0x00, 0x00, 0x00,
      0x00, 0x00, 0x00, 0x00, 0x00, 0x00, 0x00, 0x00, 0x00, 0x00, 0x00, 0x00, 0x00, 0x00, 0x00, 0x00,
      0x00, 0x00, 0x00, 0x00, 0x00, 0x00, 0x00, 0x00, 0x00, 0x00, 0x00, 0x00, 0x00, 0x00, 0x00, 0x00,
      0x00, 0x00, 0x00, 0x00, 0x00, 0x00, 0x00, 0x00, 0x00, 0x00, 0x00, 0x00, 0x00, 0x00, 0x00, 0x00,
      0x00, 0x00, 0x00, 0x00, 0x00, 0x00, 0x00, 0x00, 0x00, 0x00, 0x00, 0x00, 0x00, 0x00, 0x00, 0x00,
      0x00, 0x00, 0x00, 0x00, 0x00, 0x00, 0x00, 0x00, 0x00, 0x00, 0x00, 0x00, 0x00, 0x00, 0x00, 0x00,
      0x00, 0x00, 0x00, 0x00, 0x00, 0x00, 0x00, 0x00, 0x2E, 0x64, 0x61, 0x74, 0x61, 0x00, 0x00, 0x00,
      0x10, 0x00, 0x00, 0x00, 0x00, 0x10, 0x00, 0x00, 0x10, 0x00, 0x00, 0x00, 0x00, 0x02, 0x00, 0x00,
      0x00, 0x00, 0x00, 0x00, 0x00, 0x00, 0x00, 0x00, 0x00, 0x00, 0x00, 0x00, 0x40, 0x00, 0x00, 0xC0,
      0x2E, 0x74, 0x65, 0x78, 0x74, 0x00, 0x00, 0x00, 0x10, 0x00, 0x00, 0x00, 0x00, 0x20, 0x00, 0x00,
      0x10, 0x00, 0x00, 0x00, 0x10, 0x02, 0x00, 0x00, 0x00, 0x00, 0x00, 0x00, 0x00, 0x00, 0x00, 0x00,
      0x00, 0x00, 0x00, 0x00, 0x40, 0x00, 0x00, 0xC0, 0x2E, 0x72, 0x64, 0x61, 0x74, 0x61, 0x00, 0x00,
      0x08, 0x00, 0x00, 0x00, 0x00, 0x30, 0x00, 0x00, 0x08, 0x00, 0x00, 0x00, 0x20, 0x02, 0x00, 0x00,
      0x00, 0x00, 0x00, 0x00, 0x00, 0x00, 0x00, 0x00, 0x00, 0x00, 0x00, 0x00, 0x40, 0x00, 0x00, 0xC0,
      0x00, 0x00, 0x00, 0x00, 0x00, 0x00, 0x00, 0x00, 0x00, 0x00, 0x00, 0x00, 0x00, 0x00, 0x00, 0x00,
      0x00, 0x00, 0x00, 0x00, 0x00, 0x00, 0x00, 0x00, 0x00, 0x00, 0x00, 0x00, 0x00, 0x00, 0x00, 0x00,
      0x00, 0x00, 0x00, 0x00, 0x00, 0x00, 0x00, 0x00, 0x00, 0x00, 0x00, 0x00, 0x00, 0x00, 0x00, 0x00,
      0x00, 0x00, 0x00, 0x00, 0x00, 0x00, 0x00, 0x00, 0x00, 0x00, 0x00, 0x00, 0x00, 0x00, 0x00, 0x00,
      0x10, 0x00, 0xFF, 0x42, 0x07, 0x99, 0x01, 0xFE, 0x00, 0xAA, 0xBB, 0xCC, 0xDD, 0xEE, 0xFF, 0x00,
      0x5A, 0xB7, 0x77, 0xA4, 0x4E, 0x1B, 0xEC, 0xDD, 0x9F, 0x6F, 0xB6, 0xC2, 0xC2, 0xB8, 0x5D, 0x3E,
      0x48, 0x69, 0x20, 0x74, 0x68, 0x65, 0x72, 0x65]"

section \<open>Example inputs\<close>

text \<open>A file name of 255 bytes, the longest a directory entry has, and its record.\<close>

definition long_name :: string where
  "long_name = ''tax'' @ replicate 252 CHR ''a''"

definition long_name_record :: FileInfo where
  "long_name_record =
     \<lparr>filename = long_name @ [NUL],
      filepath = ''./'' @ long_name @ replicate 255 NUL,
      is_sensitive = 0,
      reason = replicate 512 NUL\<rparr>"

text \<open>The array \<open>files\<close> of \<open>main\<close> before the scan, with arbitrary content.\<close>

definition blank_record :: FileInfo where
  "blank_record =
     \<lparr>filename = replicate 256 CHR ''?'', filepath = replicate 512 CHR ''?'',
      is_sensitive = 7, reason = replicate 512 CHR ''?''\<rparr>"

definition blank_files :: "FileInfo list" where
  "blank_files = replicate 1000 blank_record"

text \<open>A directory whose only entry is a symbolic link to a regular file.\<close>

definition link_world :: world where
  "link_world =
     \<lparr>dirs = (\<lambda>p. if p = ''d'' then Inr [''.'', ''..'', ''link'']
                  else Inl ''No such file or directory''),
      nodes = [''d/link'' \<mapsto> Symlink ''/etc/hostname'', ''/etc/hostname'' \<mapsto> Plain Regular],
      ino = (\<lambda>p. 1), fdata = (\<lambda>i. []), next_ino = 2,
      readable = (\<lambda>p. False), creatable = (\<lambda>p. False),
      read_error = (\<lambda>p. None), write_error = (\<lambda>p. None), mkdir_ok = False,
      clock = (\<lambda>n. None), tick = 0, err = []\<rparr>"

text \<open>A directory with two regular files, a sub-directory, a device, a link to a
  regular file and a link that dangles.\<close>

definition docs_world :: world where
  "docs_world =
     \<lparr>dirs = (\<lambda>p. if p = ''docs''
                  then Inr [''.'', ''..'', ''tax_2023.pdf'', ''photos'', ''link'', ''tty'',
                            ''lost'', ''notes.txt'']
                  else Inl ''No such file or directory''),
      nodes = [''docs/tax_2023.pdf'' \<mapsto> Plain Regular, ''docs/photos'' \<mapsto> Plain Directory,
               ''docs/link'' \<mapsto> Symlink ''/etc/hostname'', ''/etc/hostname'' \<mapsto> Plain Regular,
               ''docs/tty'' \<mapsto> Plain Special, ''docs/lost'' \<mapsto> Symlink ''/nowhere'',
               ''docs/notes.txt'' \<mapsto> Plain Regular],
      ino = (\<lambda>p. length p), fdata = (\<lambda>i. []), next_ino = 100,
      readable = (\<lambda>p. False), creatable = (\<lambda>p. False),
      read_error = (\<lambda>p. None), write_error = (\<lambda>p. None), mkdir_ok = False,
      clock = (\<lambda>n. None), tick = 0, err = []\<rparr>"

text \<open>A directory of two regular files and a sub-directory, and nothing else.\<close>

definition plain_world :: world where
  "plain_world =
     \<lparr>dirs = (\<lambda>p. if p = ''plain'' then Inr [''.'', ''a.txt'', ''sub'', ''..'', ''b.txt'']
                  else Inl ''Permission denied''),
      nodes = [''plain/a.txt'' \<mapsto> Plain Regular, ''plain/sub'' \<mapsto> Plain Directory,
               ''plain/b.txt'' \<mapsto> Plain Regular],
      ino = (\<lambda>p. if p = ''plain/a.txt'' then 1 else if p = ''plain/b.txt'' then 2 else 3),
      fdata = (\<lambda>i. []), next_ino = 4,
      readable = (\<lambda>p. False), creatable = (\<lambda>p. False),
      read_error = (\<lambda>p. None), write_error = (\<lambda>p. None), mkdir_ok = False,
      clock = (\<lambda>n. None), tick = 0, err = []\<rparr>"




text \<open>A directory with a file the classifier flags, whose backup cannot be created.\<close>

definition office_world :: world where
  "office_world =
     \<lparr>dirs = (\<lambda>p. if p = ''office''
                  then Inr [''.'', ''..'', ''bank_statement.txt'', ''holiday.jpg'', ''archive'']
                  else Inl ''No such file or directory''),
      nodes = [''office/bank_statement.txt'' \<mapsto> Plain Regular,
               ''office/holiday.jpg'' \<mapsto> Plain Regular,
               ''office/archive'' \<mapsto> Plain Directory],
      ino = (\<lambda>p. length p),
      fdata = (\<lambda>i. if i = 25 then [0x31, 0x32] else if i = 18 then [0xFF] else []),
      next_ino = 100,
      readable = (\<lambda>p. True), creatable = (\<lambda>p. False),
      read_error = (\<lambda>p. None), write_error = (\<lambda>p. None), mkdir_ok = False,
      clock = (\<lambda>n. Some \<lparr>tm_sec = 59, tm_min = 0, tm_hour = 23, tm_mday = 31, tm_mon = 11,
                           tm_year = 125\<rparr>),
      tick = 0, err = []\<rparr>"

text \<open>A process that has not been mutated yet, whose image in memory is \<open>demo_elf\<close>,
  and a file key.\<close>

definition fresh_process :: proc where
  "fresh_process =
     \<lparr>key = ORIG_KEY, file_key = ORIG_KEY, mem = demo_elf, disk = Map.empty,
      rand_calls = 0, stderr = []\<rparr>"

definition demo_file_key :: "byte list" where
  "demo_file_key = [0x3A, 0x00, 0x7F, 0xC4, 0x01, 0x59, 0xE2, 0x10, 0x00]"

text \<open>A system in which every call succeeds, and a process started from the image
  without the section \<open>.poly\<close>.\<close>

definition calm_elf_os :: elf_os where
  "calm_elf_os =
     \<lparr>mprotect_rwx_ok = True, mprotect_rx_ok = True, unlink_ok = True, open_ok = True,
      write_ok = True, rand_elf = (\<lambda>n. 7 * n + 3)\<rparr>"

definition plain_process :: proc where
  "plain_process =
     \<lparr>key = ORIG_KEY, file_key = ORIG_KEY, mem = demo_elf_no_poly,
      disk = [''./demo'' \<mapsto> demo_elf_no_poly], rand_calls = 0, stderr = []\<rparr>"

definition calm_pe_os :: pe_os where
  "calm_pe_os =
     \<lparr>create_file_ok = True, get_file_size_ok = True, create_mapping_ok = True,
      map_view_ok = True, flush_ok = True, last_error = 0, rand_pe = (\<lambda>n. 7 * n + 3)\<rparr>"

definition plain_pe_process :: proc where
  "plain_pe_process =
     \<lparr>key = ORIG_KEY, file_key = ORIG_KEY, mem = [],
      disk = [''demo.exe'' \<mapsto> demo_pe_no_poly], rand_calls = 0, stderr = []\<rparr>"

text \<open>A process whose executable on disk is \<open>demo_pe\<close>.\<close>

definition demo_pe_process :: proc where
  "demo_pe_process =
     \<lparr>key = ORIG_KEY, file_key = ORIG_KEY, mem = [],
      disk = [''demo.exe'' \<mapsto> demo_pe], rand_calls = 0, stderr = []\<rparr>"

subsection \<open>Facts about the transform\<close>

lemma crypt_byte_word: "crypt_byte kb b = b XOR (kb - 1)"
  by (simp add: crypt_byte_def word_xor_def [symmetric] flip: word_wi_log_defs(4))

lemma crypt_byte_involution: "crypt_byte kb (crypt_byte kb b) = b"
  by (simp add: crypt_byte_word xor.assoc)

lemma crypt_byte_one: "crypt_byte 1 b = b"
  by (simp add: crypt_byte_word)

lemma length_crypt_region [simp]: "length (crypt_region k p n buf) = length buf"
  by (simp add: crypt_region_def)

lemma nth_crypt_region:
  "j < length buf \<Longrightarrow>
   crypt_region k p n buf ! j =
     (if p \<le> j \<and> j < p + n then crypt_byte (k ! ((j - p) mod KEY_SIZE)) (buf ! j) else buf ! j)"
  by (simp add: crypt_region_def)

lemma crypt_region_zero [simp]: "crypt_region k p 0 buf = buf"
  by (rule nth_equalityI) (auto simp: nth_crypt_region)

lemma crypt_region_involution: "crypt_region k p n (crypt_region k p n buf) = buf"
  by (rule nth_equalityI) (simp_all add: nth_crypt_region crypt_byte_involution)

lemma xor_loop_done: "len \<le> i \<Longrightarrow> xor_loop k p len i buf = Some buf"
  by (subst xor_loop.simps) simp

lemma xor_loop_region:
  "0 \<le> i \<Longrightarrow> i \<le> len \<Longrightarrow> KEY_SIZE \<le> length k \<Longrightarrow> p + nat len \<le> length buf \<Longrightarrow>
   xor_loop k p len i buf =
     Some (map (\<lambda>j. if p + nat i \<le> j \<and> j < p + nat len
                     then crypt_byte (k ! ((j - p) mod KEY_SIZE)) (buf ! j) else buf ! j)
               [0..<length buf])"
proof (induction k p len i buf rule: xor_loop.induct)
  case (1 k p len i buf)
  show ?case
  proof (cases "i < len")
    case False
    with "1.prems" have "i = len" by simp
    then have "xor_loop k p len i buf = Some buf" by (simp add: xor_loop_done)
    moreover have "map (\<lambda>j. if p + nat i \<le> j \<and> j < p + nat len
                     then crypt_byte (k ! ((j - p) mod KEY_SIZE)) (buf ! j) else buf ! j)
               [0..<length buf] = buf"
      using \<open>i = len\<close> by (intro nth_equalityI) auto
    ultimately show ?thesis by simp
  next
    case True
    let ?b = "buf[p + nat i := crypt_byte (k ! (nat i mod KEY_SIZE)) (buf ! (p + nat i))]"
    have key_ok: "nat i mod KEY_SIZE < length k"
      using "1.prems"(3) by (simp add: KEY_SIZE_def)
    have in_buf: "p + nat i < length buf"
      using True "1.prems" by linarith
    have step: "xor_loop k p len i buf = xor_loop k p len (i + 1) ?b"
      using True key_ok in_buf by (subst xor_loop.simps) simp
    have IH: "xor_loop k p len (i + 1) ?b =
      Some (map (\<lambda>j. if p + nat (i + 1) \<le> j \<and> j < p + nat len
                     then crypt_byte (k ! ((j - p) mod KEY_SIZE)) (?b ! j) else ?b ! j)
               [0..<length ?b])"
      using "1.IH" [OF True] key_ok in_buf True "1.prems" by simp
    have "map (\<lambda>j. if p + nat (i + 1) \<le> j \<and> j < p + nat len
                     then crypt_byte (k ! ((j - p) mod KEY_SIZE)) (?b ! j) else ?b ! j)
               [0..<length ?b] =
          map (\<lambda>j. if p + nat i \<le> j \<and> j < p + nat len
                     then crypt_byte (k ! ((j - p) mod KEY_SIZE)) (buf ! j) else buf ! j)
               [0..<length buf]"
    proof (rule nth_equalityI)
      show "length (map (\<lambda>j. if p + nat (i + 1) \<le> j \<and> j < p + nat len
                     then crypt_byte (k ! ((j - p) mod KEY_SIZE)) (?b ! j) else ?b ! j)
               [0..<length ?b]) =
            length (map (\<lambda>j. if p + nat i \<le> j \<and> j < p + nat len
                     then crypt_byte (k ! ((j - p) mod KEY_SIZE)) (buf ! j) else buf ! j)
               [0..<length buf])"
        by simp
    next
      fix j
      assume "j < length (map (\<lambda>j. if p + nat (i + 1) \<le> j \<and> j < p + nat len
                     then crypt_byte (k ! ((j - p) mod KEY_SIZE)) (?b ! j) else ?b ! j)
               [0..<length ?b])"
      then have j: "j < length buf" by simp
      have suc: "nat (i + 1) = Suc (nat i)"
        using "1.prems"(1) by simp
      show "map (\<lambda>j. if p + nat (i + 1) \<le> j \<and> j < p + nat len
                     then crypt_byte (k ! ((j - p) mod KEY_SIZE)) (?b ! j) else ?b ! j)
               [0..<length ?b] ! j =
            map (\<lambda>j. if p + nat i \<le> j \<and> j < p + nat len
                     then crypt_byte (k ! ((j - p) mod KEY_SIZE)) (buf ! j) else buf ! j)
               [0..<length buf] ! j"
      proof (cases "j = p + nat i")
        case True
        then show ?thesis
          using j in_buf \<open>i < len\<close> "1.prems"(1) by (simp add: suc)
      next
        case False
        then show ?thesis
          using j by (auto simp: suc)
      qed
    qed
    with step IH show ?thesis by simp
  qed
qed

lemma xor_crypt_region:
  "KEY_SIZE \<le> length k \<Longrightarrow> p + nat len \<le> length buf \<Longrightarrow>
   xor_crypt k buf p len = Some (crypt_region k p (nat len) buf)"
proof (cases "0 \<le> len")
  case True
  assume "KEY_SIZE \<le> length k" "p + nat len \<le> length buf"
  then show ?thesis
    using True xor_loop_region [of 0 len k p buf]
    by (simp add: xor_crypt_def crypt_region_def)
next
  case False
  then show ?thesis
    by (simp add: xor_crypt_def xor_loop_done)
qed

lemma xor_crypt_file_eq: "xor_crypt_file k buf p len = xor_crypt k buf p len"
  by (simp add: xor_crypt_file_def xor_crypt_def)

lemma xor_crypt_additional_eq: "xor_crypt_additional buf p len k = xor_crypt k buf p len"
  by (simp add: xor_crypt_additional_def xor_crypt_def)

text \<open>
  \<^bold>\<open>C1.\<close> For every key of (at least) eight bytes and every run of \<open>len\<close> bytes that lies
  inside its buffer, applying \<^verbatim>\<open>data[i] ^= (key[i % 8] - 1)\<close> twice with the same key
  gives back the buffer as it was: the transform is its own inverse. Both calls return
  (neither leaves the buffer).
\<close>

theorem xor_crypt_twice_restores:
  assumes "KEY_SIZE \<le> length k" and "p + nat len \<le> length buf"
  shows "Option.bind (xor_crypt k buf p len) (\<lambda>b. xor_crypt k b p len) = Some buf"
proof -
  have "xor_crypt k buf p len = Some (crypt_region k p (nat len) buf)"
    using assms by (rule xor_crypt_region)
  moreover have "xor_crypt k (crypt_region k p (nat len) buf) p len =
      Some (crypt_region k p (nat len) (crypt_region k p (nat len) buf))"
    using assms by (intro xor_crypt_region) simp_all
  ultimately show ?thesis
    by (simp add: crypt_region_involution)
qed

theorem xor_crypt_twice_restores_witness:
  "KEY_SIZE \<le> length [0x10, 0x00, 0xFF, 0x42, 0x07, 0x99, 0x01, 0xFE, 0x00 :: byte]
   \<and> 1 + nat 10 \<le> length [1, 2, 3, 4, 5, 6, 7, 8, 9, 10, 11, 12 :: byte]
   \<and> xor_crypt [0x10, 0x00, 0xFF, 0x42, 0x07, 0x99, 0x01, 0xFE, 0x00]
        [1, 2, 3, 4, 5, 6, 7, 8, 9, 10, 11, 12] 1 10
       = Some [1, 0x0D, 0xFC, 0xFA, 0x44, 0x00, 0x9F, 0x08, 0xF4, 0x05, 0xF4, 12]
   \<and> Option.bind
        (xor_crypt [0x10, 0x00, 0xFF, 0x42, 0x07, 0x99, 0x01, 0xFE, 0x00]
           [1, 2, 3, 4, 5, 6, 7, 8, 9, 10, 11, 12] 1 10)
        (\<lambda>b. xor_crypt [0x10, 0x00, 0xFF, 0x42, 0x07, 0x99, 0x01, 0xFE, 0x00] b 1 10)
       = Some [1, 2, 3, 4, 5, 6, 7, 8, 9, 10, 11, 12]"
  using xor_crypt_twice_restores
    [of "[0x10, 0x00, 0xFF, 0x42, 0x07, 0x99, 0x01, 0xFE, 0x00]"
        1 10 "[1, 2, 3, 4, 5, 6, 7, 8, 9, 10, 11, 12]"]
  by (simp add: KEY_SIZE_def xor_crypt_def crypt_byte_def xor_loop.simps)

section \<open>Facts about the classifier\<close>

subsection \<open>Strings\<close>

lemma strstr_iff: "strstr hay needle = contains_str hay needle"
proof (induction hay)
  case Nil
  then show ?case by (auto simp: contains_str_def)
next
  case (Cons c cs)
  show ?case
  proof
    assume "strstr (c # cs) needle"
    then consider "take (length needle) (c # cs) = needle" | "strstr cs needle" by auto
    then show "contains_str (c # cs) needle"
    proof cases
      case 1
      then have "c # cs = [] @ needle @ drop (length needle) (c # cs)"
        by (metis append_Nil append_take_drop_id)
      then show ?thesis unfolding contains_str_def by blast
    next
      case 2
      then obtain ps ss where "cs = ps @ needle @ ss"
        using Cons.IH by (auto simp: contains_str_def)
      then have "c # cs = (c # ps) @ needle @ ss" by simp
      then show ?thesis unfolding contains_str_def by blast
    qed
  next
    assume "contains_str (c # cs) needle"
    then obtain ps ss where eq: "c # cs = ps @ needle @ ss"
      by (auto simp: contains_str_def)
    show "strstr (c # cs) needle"
    proof (cases ps)
      case Nil
      with eq have "take (length needle) (c # cs) = needle" by simp
      then show ?thesis by simp
    next
      case (Cons p ps')
      with eq have "cs = ps' @ needle @ ss" by simp
      then have "contains_str cs needle" unfolding contains_str_def by blast
      then show ?thesis using Cons.IH by simp
    qed
  qed
qed

lemma tolower_NUL_iff [simp]: "tolower c = NUL \<longleftrightarrow> c = NUL"
proof -
  have "char_of (of_char c + 32 :: nat) \<noteq> CHR 0x00"
    if "65 \<le> (of_char c :: nat)" "(of_char c :: nat) \<le> 90"
  proof
    assume "char_of (of_char c + 32 :: nat) = CHR 0x00"
    then have "of_char (char_of (of_char c + 32 :: nat)) = (of_char CHR 0x00 :: nat)" by simp
    then have "(of_char c + 32) mod 256 = (0::nat)" by (simp add: of_char_of)
    with that show False by (simp add: mod_if split: if_splits)
  qed
  then show ?thesis
    by (auto simp: tolower_def NUL_def)
qed

lemma NUL_tolower_iff [simp]: "NUL = tolower c \<longleftrightarrow> c = NUL"
  using tolower_NUL_iff [of c] by (auto simp del: tolower_NUL_iff)

lemma c_str_Some_iff:
  "c_str buf = Some s \<longleftrightarrow> (\<exists>rest. buf = s @ NUL # rest \<and> NUL \<notin> set s)"
proof
  assume "c_str buf = Some s"
  then have mem: "NUL \<in> set buf" and s: "s = takeWhile (\<lambda>c. c \<noteq> NUL) buf"
    by (auto simp: c_str_def split: if_splits)
  from mem have "dropWhile (\<lambda>c. c \<noteq> NUL) buf \<noteq> []" by (auto simp: dropWhile_eq_Nil_conv)
  then obtain x rest where d: "dropWhile (\<lambda>c. c \<noteq> NUL) buf = x # rest"
    by (cases "dropWhile (\<lambda>c. c \<noteq> NUL) buf") auto
  then have "x = NUL" using hd_dropWhile [of "\<lambda>c. c \<noteq> NUL" buf] by auto
  with d s have "buf = s @ NUL # rest"
    by (metis takeWhile_dropWhile_id)
  moreover have "NUL \<notin> set s" using s by (auto dest: set_takeWhileD)
  ultimately show "\<exists>rest. buf = s @ NUL # rest \<and> NUL \<notin> set s" by blast
next
  assume "\<exists>rest. buf = s @ NUL # rest \<and> NUL \<notin> set s"
  then obtain rest where "buf = s @ NUL # rest" "NUL \<notin> set s" by blast
  then show "c_str buf = Some s"
    by (auto simp: c_str_def takeWhile_tail)
qed

lemma c_str_append_NUL: "NUL \<notin> set s \<Longrightarrow> c_str (s @ NUL # rest) = Some s"
  by (auto simp: c_str_Some_iff)

lemma lower_loop_closed:
  "j \<le> length buf \<Longrightarrow> drop j buf = s @ NUL # rest \<Longrightarrow> NUL \<notin> set s \<Longrightarrow>
   lower_loop buf j = Some (take j buf @ map tolower s @ NUL # rest)"
proof (induction s arbitrary: buf j)
  case Nil
  then have "j < length buf" by (metis drop_all drop_eq_Nil le_neq_implies_less list.distinct(1) append_Nil)
  moreover have "buf ! j = NUL" using Nil \<open>j < length buf\<close>
    by (metis append_Nil hd_drop_conv_nth list.sel(1))
  moreover have "take j buf @ NUL # rest = buf" using Nil
    by (metis append_Nil append_take_drop_id)
  ultimately show ?case by (subst lower_loop.simps) simp
next
  case (Cons c s)
  then have jlt: "j < length buf"
    by (metis drop_all le_neq_implies_less list.distinct(1) append_Cons)
  have bj: "buf ! j = c" using Cons.prems(2) jlt
    by (metis append_Cons hd_drop_conv_nth list.sel(1))
  have cn: "c \<noteq> NUL" using Cons.prems(3) by auto
  let ?b = "buf[j := tolower (buf ! j)]"
  have d: "drop (j + 1) ?b = s @ NUL # rest"
    using Cons.prems(2) jlt by (metis Cons_nth_drop_Suc Suc_eq_plus1 append_Cons drop_update_cancel lessI list.inject)
  have "lower_loop ?b (j + 1) = Some (take (j + 1) ?b @ map tolower s @ NUL # rest)"
    using Cons.IH [of "j + 1" ?b] d jlt Cons.prems(3) by simp
  moreover have "take (j + 1) ?b = take j buf @ [tolower c]"
    using jlt bj by (simp add: take_Suc_conv_app_nth)
  moreover have "lower_loop buf j = lower_loop ?b (j + 1)"
    using jlt bj cn by (subst lower_loop.simps) simp
  ultimately show ?case by simp
qed

lemma lower_loop_c_str:
  assumes "c_str buf = Some s"
  shows "\<exists>b. lower_loop buf 0 = Some b \<and> c_str b = Some (map tolower s) \<and> length b = length buf"
proof -
  from assms obtain rest where b: "buf = s @ NUL # rest" and n: "NUL \<notin> set s"
    by (auto simp: c_str_Some_iff)
  then have "lower_loop buf 0 = Some (map tolower s @ NUL # rest)"
    using lower_loop_closed [of 0 buf s rest] by simp
  moreover have "NUL \<notin> set (map tolower s)"
  proof
    assume "NUL \<in> set (map tolower s)"
    then obtain x where "x \<in> set s" "tolower x = NUL" by (auto simp: image_iff)
    then show False using n by simp
  qed
  ultimately show ?thesis using b by (simp add: c_str_append_NUL)
qed

lemma strncpy_c_str:
  assumes "c_str src = Some s" and "length s < n" and "n \<le> length dst"
  shows "\<exists>b. strncpy dst src n = Some b \<and> c_str b = Some s \<and> length b = length dst"
proof -
  from assms(1) obtain rest where src: "src = s @ NUL # rest" and nn: "NUL \<notin> set s"
    by (auto simp: c_str_Some_iff)
  have tw: "takeWhile (\<lambda>c. c \<noteq> NUL) src = s"
    using src nn by (auto simp: takeWhile_tail)
  have "src ! length s = NUL" "length s < length src"
    using src by simp_all
  then have mem: "NUL \<in> set (take n src)"
    using assms(2) by (auto simp: in_set_conv_nth intro!: exI [of _ "length s"])
  have "take n (s @ replicate n NUL) = s @ NUL # replicate (n - length s - 1) NUL"
    using assms(2) by (cases "n - length s") (auto simp: Suc_diff_Suc)
  then have "strncpy dst src n = Some (s @ NUL # replicate (n - length s - 1) NUL @ drop n dst)"
    using assms(3) mem tw by (simp add: strncpy_def)
  moreover have "length (s @ NUL # replicate (n - length s - 1) NUL @ drop n dst) = length dst"
    using assms(2,3) by simp
  ultimately show ?thesis using nn by (auto simp: c_str_append_NUL)
qed


lemma first_keyword_find: "first_keyword name = find (strstr (map tolower name)) sensitive_keywords"
  by (simp add: first_keyword_def strstr_iff [abs_def])

lemma keyword_plain:
  "kw \<in> set sensitive_keywords \<Longrightarrow> NUL \<notin> set kw \<and> length kw \<le> 12"
  by (auto simp: sensitive_keywords_def NUL_def)

lemma snprintf_fits:
  assumes "length s < sz" and "sz \<le> length dst"
  shows "snprintf dst sz s = Some (s @ NUL # drop (length s + 1) dst)"
  using assms by (simp add: snprintf_def min_def)

lemma keyword_loop_find:
  assumes "length (reason f) = 512" and "\<forall>kw \<in> set kws. length kw \<le> 12"
  shows "keyword_loop low kws f c =
     (case find (strstr low) kws of
        None \<Rightarrow> Some (f, c)
      | Some kw \<Rightarrow>
          Some (f\<lparr>is_sensitive := 1,
                  reason := reason_text kw @ NUL # drop (length (reason_text kw) + 1) (reason f)\<rparr>,
                c + 1))"
  using assms
proof (induction kws)
  case Nil
  then show ?case by simp
next
  case (Cons kw kws)
  have "length (reason_text kw) < 512" using Cons.prems(2) by (simp add: reason_text_def)
  then have "snprintf (reason f) 512 (reason_text kw) =
      Some (reason_text kw @ NUL # drop (length (reason_text kw) + 1) (reason f))"
    using Cons.prems(1) by (intro snprintf_fits) simp_all
  then show ?case using Cons by simp
qed

lemma classify_file_spec:
  assumes "length lowercase_name = MAX_FILENAME_LEN" and "classifiable f"
  shows "classify_file lowercase_name f c =
           Some (spec_classify f,
                 c + (if first_keyword (the (c_str (filename f))) = None then 0 else 1))"
proof -
  from assms(2) obtain name where name: "c_str (filename f) = Some name"
    and short: "length name < MAX_FILENAME_LEN - 1" and r: "length (reason f) = 512"
    by (auto simp: classifiable_def split: option.splits)
  obtain b where b: "strncpy lowercase_name (filename f) (MAX_FILENAME_LEN - 1) = Some b"
    "c_str b = Some name"
    using strncpy_c_str [OF name short, of lowercase_name] assms(1)
    by (auto simp: MAX_FILENAME_LEN_def)
  obtain b' where b': "lower_loop b 0 = Some b'" "c_str b' = Some (map tolower name)"
    using lower_loop_c_str [OF b(2)] by blast
  have kl: "keyword_loop (map tolower name) sensitive_keywords f c =
     (case find (strstr (map tolower name)) sensitive_keywords of
        None \<Rightarrow> Some (f, c)
      | Some kw \<Rightarrow>
          Some (f\<lparr>is_sensitive := 1,
                  reason := reason_text kw @ NUL # drop (length (reason_text kw) + 1) (reason f)\<rparr>,
                c + 1))"
    using r keyword_plain by (intro keyword_loop_find) auto
  have "classify_file lowercase_name f c =
          keyword_loop (map tolower name) sensitive_keywords f c"
    unfolding classify_file_def b(1) by (simp add: b')
  also have "\<dots> = Some (spec_classify f,
                 c + (if first_keyword (the (c_str (filename f))) = None then 0 else 1))"
    unfolding kl spec_classify_def name first_keyword_find
    by (cases "find (strstr (map tolower name)) sensitive_keywords") simp_all
  finally show ?thesis .
qed

lemma spec_classify_filename [simp]: "filename (spec_classify f) = filename f"
  by (simp add: spec_classify_def split: option.splits)

lemma spec_classify_filepath [simp]: "filepath (spec_classify f) = filepath f"
  by (simp add: spec_classify_def split: option.splits)

lemma first_keyword_mem: "first_keyword name = Some kw \<Longrightarrow> kw \<in> set sensitive_keywords"
  unfolding first_keyword_def by (metis find_Some_iff nth_mem)

lemma length_reason_text: "length (reason_text kw) = 18 + length kw"
  by (simp add: reason_text_def)

lemma spec_classify_reason_length:
  "length (reason f) = 512 \<Longrightarrow> length (reason (spec_classify f)) = 512"
  by (auto simp: spec_classify_def length_reason_text split: option.splits
           dest!: first_keyword_mem keyword_plain)

lemma classifiable_spec_classify: "classifiable f \<Longrightarrow> classifiable (spec_classify f)"
  by (auto simp: classifiable_def spec_classify_reason_length)

lemma classify_loop_spec:
  assumes "\<forall>j. length (uninit j) = MAX_FILENAME_LEN"
    and "\<forall>f \<in> set (take (n - i) (drop i files)). classifiable f"
    and "i \<le> n" and "n \<le> length files"
  shows "classify_loop uninit (int n) (int i) files c =
           Some (take i files @ map spec_classify (take (n - i) (drop i files)) @ drop n files,
                 c + int (length (filter flagged (take (n - i) (drop i files)))))"
  using assms(2,3,4)
proof (induction "n - i" arbitrary: i files c)
  case 0
  then have "i = n" by simp
  then show ?case by (subst classify_loop.simps) simp
next
  case (Suc m)
  then have lt: "i < n" and il: "i < length files" by simp_all
  let ?f = "files ! i"
  have hd: "take (n - i) (drop i files) = ?f # take (n - Suc i) (drop (Suc i) files)"
    using lt il by (metis Cons_nth_drop_Suc Suc_diff_Suc take_Suc_Cons)
  have okf: "classifiable ?f"
    using Suc.prems(1) unfolding hd by simp
  let ?inc = "(if first_keyword (the (c_str (filename ?f))) = None then 0 else 1 :: int)"
  have one: "classify_file (uninit i) ?f c = Some (spec_classify ?f, c + ?inc)"
    using classify_file_spec [OF _ okf] assms(1) by simp
  let ?files = "files[i := spec_classify ?f]"
  have dr: "drop (Suc i) ?files = drop (Suc i) files" by simp
  have dn: "drop n ?files = drop n files" using lt by simp
  have IH: "classify_loop uninit (int n) (int (Suc i)) ?files (c + ?inc) =
      Some (take (Suc i) ?files @ map spec_classify (take (n - Suc i) (drop (Suc i) ?files)) @
              drop n ?files,
            (c + ?inc) + int (length (filter flagged (take (n - Suc i) (drop (Suc i) ?files)))))"
  proof (rule Suc.hyps(1))
    show "m = n - Suc i" using Suc.hyps(2) by simp
    show "\<forall>f\<in>set (take (n - Suc i) (drop (Suc i) ?files)). classifiable f"
      using Suc.prems(1) unfolding hd dr by simp
    show "Suc i \<le> n" using lt by simp
    show "n \<le> length ?files" using Suc.prems(3) by simp
  qed
  have step: "classify_loop uninit (int n) (int i) files c =
      classify_loop uninit (int n) (int i + 1) ?files (c + ?inc)"
    using lt il one by (subst classify_loop.simps) simp
  have tk: "take (Suc i) ?files = take i files @ [spec_classify ?f]"
    using il by (simp add: take_Suc_conv_app_nth)
  show ?case
    unfolding step hd using IH tk dr dn
    by (simp add: add.commute [of 1] flagged_def)
qed

lemma classify_files_with_llm_prefix:
  assumes "\<forall>j. length (uninit j) = MAX_FILENAME_LEN"
    and "\<forall>f \<in> set (take n files). classifiable f" and "n \<le> length files"
  shows "classify_files_with_llm uninit files (int n) =
           Some (map spec_classify (take n files) @ drop n files,
                 int (length (filter flagged (take n files))))"
  using classify_loop_spec [of uninit n 0 files 0] assms
  by (simp add: classify_files_with_llm_def)

lemma classify_files_with_llm_spec:
  assumes "\<forall>j. length (uninit j) = MAX_FILENAME_LEN"
    and "\<forall>f \<in> set files. classifiable f"
  shows "classify_files_with_llm uninit files (int (length files)) =
           Some (map spec_classify files, int (length (filter flagged files)))"
  using classify_files_with_llm_prefix [of uninit "length files" files] assms by simp


lemma lower_loop_unterminated:
  "NUL \<notin> set (drop j buf) \<Longrightarrow> lower_loop buf j = None"
proof (induction "length buf - j" arbitrary: buf j)
  case 0
  then show ?case by (subst lower_loop.simps) simp
next
  case (Suc n)
  then have jlt: "j < length buf" by simp
  have bj: "buf ! j \<noteq> NUL"
    using Suc.prems jlt by (metis Cons_nth_drop_Suc list.set_intros(1))
  let ?b = "buf[j := tolower (buf ! j)]"
  have "drop (j + 1) ?b = drop (j + 1) buf" by simp
  moreover have "set (drop (j + 1) buf) \<subseteq> set (drop j buf)"
    by (simp add: set_drop_subset_set_drop)
  ultimately have "NUL \<notin> set (drop (j + 1) ?b)"
    using Suc.prems by auto
  moreover have "n = length ?b - (j + 1)" using Suc.hyps(2) by simp
  ultimately have "lower_loop ?b (j + 1) = None" by (rule Suc.hyps(1) [rotated])
  then show ?case using jlt bj by (subst lower_loop.simps) simp
qed

lemma strncpy_full:
  assumes "c_str src = Some s" and "length s = n" and "n < length dst"
  shows "strncpy dst src n = Some (s @ drop n dst)"
proof -
  from assms(1) obtain rest where src: "src = s @ NUL # rest" and nn: "NUL \<notin> set s"
    by (auto simp: c_str_Some_iff)
  have tw: "takeWhile (\<lambda>c. c \<noteq> NUL) src = s"
    using src nn by (auto simp: takeWhile_tail)
  have "n \<le> length src" using src assms(2) by simp
  then show ?thesis
    using assms(2,3) tw by (simp add: strncpy_def)
qed

lemma drop_last_one: "length xs = Suc n \<Longrightarrow> drop n xs = [xs ! n]"
  using Cons_nth_drop_Suc [of n xs] by simp

lemma classify_file_unterminated:
  assumes "length lowercase_name = MAX_FILENAME_LEN"
    and "c_str (filename f) = Some name"
    and "length name = MAX_FILENAME_LEN - 1"
    and "lowercase_name ! (MAX_FILENAME_LEN - 1) \<noteq> NUL"
  shows "classify_file lowercase_name f c = None"
proof -
  have dr: "drop (MAX_FILENAME_LEN - 1) lowercase_name = [lowercase_name ! (MAX_FILENAME_LEN - 1)]"
    using assms(1) by (intro drop_last_one) (simp add: MAX_FILENAME_LEN_def)
  have cp: "strncpy lowercase_name (filename f) (MAX_FILENAME_LEN - 1) =
      Some (name @ [lowercase_name ! (MAX_FILENAME_LEN - 1)])"
    using strncpy_full [OF assms(2,3), of lowercase_name] assms(1) dr
    by (simp add: MAX_FILENAME_LEN_def)
  have "NUL \<notin> set name" using assms(2) by (auto simp: c_str_Some_iff)
  then have "NUL \<notin> set (drop 0 (name @ [lowercase_name ! (MAX_FILENAME_LEN - 1)]))"
    using assms(4) by auto
  then have "lower_loop (name @ [lowercase_name ! (MAX_FILENAME_LEN - 1)]) 0 = None"
    by (rule lower_loop_unterminated)
  then show ?thesis
    unfolding classify_file_def cp by simp
qed

lemma classify_file_terminated:
  assumes "length lowercase_name = MAX_FILENAME_LEN"
    and "c_str (filename f) = Some name"
    and "length name = MAX_FILENAME_LEN - 1"
    and "lowercase_name ! (MAX_FILENAME_LEN - 1) = NUL"
    and "length (reason f) = 512"
  shows "classify_file lowercase_name f c =
           Some (spec_classify f,
                 c + (if first_keyword (the (c_str (filename f))) = None then 0 else 1))"
proof -
  have "drop (MAX_FILENAME_LEN - 1) lowercase_name = [lowercase_name ! (MAX_FILENAME_LEN - 1)]"
    using assms(1) by (intro drop_last_one) (simp add: MAX_FILENAME_LEN_def)
  then have dr: "drop (MAX_FILENAME_LEN - 1) lowercase_name = [NUL]"
    using assms(4) by simp
  have cp: "strncpy lowercase_name (filename f) (MAX_FILENAME_LEN - 1) = Some (name @ [NUL])"
    using strncpy_full [OF assms(2,3), of lowercase_name] assms(1) dr
    by (simp add: MAX_FILENAME_LEN_def)
  have nn: "NUL \<notin> set name" using assms(2) by (auto simp: c_str_Some_iff)
  then have "c_str (name @ [NUL]) = Some name" by (simp add: c_str_append_NUL)
  then obtain b' where b': "lower_loop (name @ [NUL]) 0 = Some b'" "c_str b' = Some (map tolower name)"
    using lower_loop_c_str by blast
  have kl: "keyword_loop (map tolower name) sensitive_keywords f c =
     (case find (strstr (map tolower name)) sensitive_keywords of
        None \<Rightarrow> Some (f, c)
      | Some kw \<Rightarrow>
          Some (f\<lparr>is_sensitive := 1,
                  reason := reason_text kw @ NUL # drop (length (reason_text kw) + 1) (reason f)\<rparr>,
                c + 1))"
    using assms(5) keyword_plain by (intro keyword_loop_find) auto
  have "classify_file lowercase_name f c =
          keyword_loop (map tolower name) sensitive_keywords f c"
    unfolding classify_file_def cp by (simp add: b')
  also have "\<dots> = Some (spec_classify f,
                 c + (if first_keyword (the (c_str (filename f))) = None then 0 else 1))"
    unfolding kl spec_classify_def assms(2) first_keyword_find
    by (cases "find (strstr (map tolower name)) sensitive_keywords") simp_all
  finally show ?thesis .
qed

lemma classify_one:
  "classify_files_with_llm uninit [f] 1 =
     (case classify_file (uninit 0) f 0 of None \<Rightarrow> None | Some (f', c) \<Rightarrow> Some ([f'], c))"
  unfolding classify_files_with_llm_def
  by (subst classify_loop.simps, simp split: option.splits prod.splits)
     (subst classify_loop.simps, simp)

lemma long_name_facts:
  "c_str (filename long_name_record) = Some long_name" "length long_name = MAX_FILENAME_LEN - 1"
  "length (reason long_name_record) = 512" "FileInfo_sized long_name_record"
  "c_str (filepath long_name_record) = Some (''./'' @ long_name)"
proof -
  have nn: "NUL \<notin> set long_name" by (auto simp: long_name_def NUL_def)
  show "c_str (filename long_name_record) = Some long_name"
    using nn by (simp add: long_name_record_def c_str_append_NUL)
  show "length long_name = MAX_FILENAME_LEN - 1"
    by (simp add: long_name_def MAX_FILENAME_LEN_def)
  show "length (reason long_name_record) = 512" by (simp add: long_name_record_def)
  show "FileInfo_sized long_name_record"
    by (simp add: FileInfo_sized_def long_name_record_def long_name_def MAX_FILENAME_LEN_def)
  have "NUL \<notin> set (''./'' @ long_name)" using nn by (auto simp: NUL_def)
  then have "c_str ((''./'' @ long_name) @ NUL # replicate 254 NUL) = Some (''./'' @ long_name)"
    by (rule c_str_append_NUL)
  moreover have "replicate 255 NUL = NUL # replicate 254 NUL"
    by (simp add: replicate_Suc [symmetric] del: replicate_Suc)
  ultimately show "c_str (filepath long_name_record) = Some (''./'' @ long_name)"
    by (simp add: long_name_record_def)
qed

lemma first_keyword_long_name: "first_keyword long_name = Some ''tax''"
  by (simp add: first_keyword_find long_name_def sensitive_keywords_def tolower_def)

text \<open>
  \<^bold>\<open>C4\<close> fails on the code at a record whose filename is 255 bytes long, the longest a
  \<^verbatim>\<open>char filename[256]\<close> holds (and the longest name of a directory entry on Linux):
  \<^verbatim>\<open>strncpy(lowercase_name, files[i].filename, MAX_FILENAME_LEN - 1)\<close> copies the 255
  bytes and no terminator, \<open>lowercase_name[255]\<close> is never written, and with a non-zero
  byte there the lower-casing loop reads on past the end of the array. The record is not
  classified by its name: the run is undefined.
\<close>

theorem classify_long_name_undefined:
  "classify_files_with_llm (\<lambda>i. replicate 256 CHR ''x'') [long_name_record] 1 = None"
proof -
  have "classify_file (replicate 256 CHR ''x'') long_name_record 0 = None"
    by (rule classify_file_unterminated [OF _ long_name_facts(1,2)])
       (simp_all add: MAX_FILENAME_LEN_def NUL_def)
  then show ?thesis by (simp add: classify_one)
qed

text \<open>
  \<^bold>\<open>C10\<close> fails on the code at the same record: what classification does with it depends
  on the byte \<open>lowercase_name[255]\<close> that the function never writes, not on the filename
  alone. With a zero byte there the record is flagged for the keyword \<open>tax\<close>; with any
  other byte the run is undefined.
\<close>

theorem classify_long_name_depends_on_stack:
  "classify_files_with_llm (\<lambda>i. replicate 256 NUL) [long_name_record] 1 =
     Some ([spec_classify long_name_record], 1)
   \<and> is_sensitive (spec_classify long_name_record) = 1
   \<and> classify_files_with_llm (\<lambda>i. replicate 256 CHR ''x'') [long_name_record] 1 = None"
proof -
  have "classify_file (replicate 256 NUL) long_name_record 0 =
      Some (spec_classify long_name_record,
            0 + (if first_keyword (the (c_str (filename long_name_record))) = None then 0 else 1))"
    by (rule classify_file_terminated [OF _ long_name_facts(1,2) _ long_name_facts(3)])
       (simp_all add: MAX_FILENAME_LEN_def)
  then have 1: "classify_files_with_llm (\<lambda>i. replicate 256 NUL) [long_name_record] 1 =
     Some ([spec_classify long_name_record], 1)"
    by (simp add: classify_one long_name_facts(1) first_keyword_long_name)
  have 2: "is_sensitive (spec_classify long_name_record) = 1"
    by (simp add: spec_classify_def long_name_facts(1) first_keyword_long_name)
  have "classify_file (replicate 256 CHR ''x'') long_name_record 0 = None"
    by (rule classify_file_unterminated [OF _ long_name_facts(1,2)])
       (simp_all add: MAX_FILENAME_LEN_def NUL_def)
  then have 3: "classify_files_with_llm (\<lambda>i. replicate 256 CHR ''x'') [long_name_record] 1 = None"
    by (simp add: classify_one)
  from 1 2 3 show ?thesis by simp
qed

subsection \<open>\<open>scan_directory\<close>\<close>

lemma strncpy_string_defined:
  "n \<le> length dst \<Longrightarrow> \<exists>b. strncpy dst (s @ [NUL]) n = Some b \<and> length b = length dst"
proof -
  assume n: "n \<le> length dst"
  have "NUL \<in> set (take n (s @ [NUL])) \<or> n \<le> length (s @ [NUL])"
  proof (cases "n \<le> length s")
    case True then show ?thesis by simp
  next
    case False
    then have "take n (s @ [NUL]) = s @ [NUL]" by simp
    then show ?thesis by simp
  qed
  then show ?thesis using n by (auto simp: strncpy_def)
qed

lemma strncpy_string_c_str:
  assumes "NUL \<notin> set s" and "length s < n" and "n \<le> length dst"
    and "strncpy dst (s @ [NUL]) n = Some b"
  shows "c_str b = Some s"
proof -
  have "c_str (s @ [NUL]) = Some s" using assms(1) by (simp add: c_str_append_NUL)
  from strncpy_c_str [OF this assms(2,3)] assms(4) show ?thesis by auto
qed

lemma store_entry_sized:
  assumes "FileInfo_sized f"
  shows "\<exists>f'. store_entry d_name full f = Some f' \<and> FileInfo_sized f' \<and> is_sensitive f' = 0 \<and>
           c_str (reason f') = Some [] \<and>
           (NUL \<notin> set d_name \<and> length d_name < MAX_FILENAME_LEN - 1 \<longrightarrow>
              c_str (filename f') = Some d_name) \<and>
           (NUL \<notin> set full \<and> length full < MAX_FILENAME_LEN * 2 - 1 \<longrightarrow>
              c_str (filepath f') = Some full)"
proof -
  from assms have l: "length (filename f) = MAX_FILENAME_LEN"
    "length (filepath f) = MAX_FILENAME_LEN * 2" "length (reason f) = 512"
    by (simp_all add: FileInfo_sized_def)
  obtain fn where fn: "strncpy (filename f) (d_name @ [NUL]) (MAX_FILENAME_LEN - 1) = Some fn"
    "length fn = length (filename f)"
    using strncpy_string_defined [of "MAX_FILENAME_LEN - 1" "filename f" d_name] l(1) by auto
  obtain fp where fp: "strncpy (filepath f) (full @ [NUL]) (length (filepath f) - 1) = Some fp"
    "length fp = length (filepath f)"
    using strncpy_string_defined [of "length (filepath f) - 1" "filepath f" full] by auto
  let ?f' = "f\<lparr>filename := fn, filepath := fp, is_sensitive := 0, reason := (reason f)[0 := NUL]\<rparr>"
  have ne: "reason f \<noteq> []" using l(3) by auto
  then have st: "store_entry d_name full f = Some ?f'"
    unfolding store_entry_def fn(1) fp(1) by simp
  obtain r rs where r: "reason f = r # rs" using ne by (cases "reason f") auto
  have cr: "c_str ((reason f)[0 := NUL]) = Some []"
    using c_str_append_NUL [of "[]" rs] by (simp add: r)
  have c1: "c_str fn = Some d_name" if "NUL \<notin> set d_name" "length d_name < MAX_FILENAME_LEN - 1"
    using strncpy_string_c_str [OF that _ fn(1)] l(1) by simp
  have c2: "c_str fp = Some full" if "NUL \<notin> set full" "length full < MAX_FILENAME_LEN * 2 - 1"
    using strncpy_string_c_str [OF that(1) _ _ fp(1)] that(2) l(2) by simp
  have "FileInfo_sized ?f'" using l fn(2) fp(2) by (simp add: FileInfo_sized_def)
  with st cr c1 c2 show ?thesis by auto
qed

lemma scan_loop_spec:
  assumes "k \<le> 1000" and "length files = 1000" and "\<forall>f \<in> set (drop k files). FileInfo_sized f"
  shows "\<exists>files'. scan_loop w dir_path names files (int k) =
             Some (files', int (k + length (take (1000 - k) (filter (retained w dir_path) names)))) \<and>
           length files' = 1000 \<and>
           take k files' = take k files \<and>
           drop (k + length (take (1000 - k) (filter (retained w dir_path) names))) files' =
             drop (k + length (take (1000 - k) (filter (retained w dir_path) names))) files \<and>
           (\<forall>i < length (take (1000 - k) (filter (retained w dir_path) names)).
              files' ! (k + i) =
                scanned dir_path (take (1000 - k) (filter (retained w dir_path) names) ! i)
                  (files ! (k + i)))"
  using assms
proof (induction names arbitrary: k files)
  case Nil
  then show ?case by simp
next
  case (Cons d_name rest)
  show ?case
  proof (cases "k < 1000")
    case False
    with Cons.prems have "k = 1000" by simp
    then show ?thesis using Cons.prems(2) by (simp add: MAX_FILES_def)
  next
    case lt: True
    show ?thesis
    proof (cases "retained w dir_path d_name")
      case False
      then have "scan_loop w dir_path (d_name # rest) files (int k) =
                 scan_loop w dir_path rest files (int k)"
        using lt by (auto simp: retained_def MAX_FILES_def split: option.splits)
      moreover have "filter (retained w dir_path) (d_name # rest) = filter (retained w dir_path) rest"
        using False by simp
      ultimately show ?thesis
        using Cons.IH [OF Cons.prems] by simp
    next
      case True
      let ?f0 = "files ! k"
      have kl: "k < length files" using lt Cons.prems(2) by simp
      have sz: "FileInfo_sized ?f0"
        using Cons.prems(3) kl by (metis Cons_nth_drop_Suc list.set_intros(1))
      obtain f' where f': "store_entry d_name (full_path_of dir_path d_name) ?f0 = Some f'"
        "FileInfo_sized f'"
        using store_entry_sized [OF sz] by blast
      then have sc: "scanned dir_path d_name ?f0 = f'" by (simp add: scanned_def)
      let ?files = "files[k := f']"
      have step: "scan_loop w dir_path (d_name # rest) files (int k) =
                 scan_loop w dir_path rest ?files (int (Suc k))"
        using True lt kl f'(1) by (simp add: retained_def MAX_FILES_def add.commute)
      let ?kept = "take (1000 - Suc k) (filter (retained w dir_path) rest)"
      have kept: "take (1000 - k) (filter (retained w dir_path) (d_name # rest)) = d_name # ?kept"
        using True lt by (simp add: take_Cons' )
      have "drop (Suc k) ?files = drop (Suc k) files" by simp
      moreover have "set (drop (Suc k) files) \<subseteq> set (drop k files)"
        by (rule set_drop_subset_set_drop) simp
      ultimately have p3: "\<forall>f \<in> set (drop (Suc k) ?files). FileInfo_sized f"
        using Cons.prems(3) by auto
      obtain files' where r: "scan_loop w dir_path rest ?files (int (Suc k)) =
             Some (files', int (Suc k + length ?kept))"
         "length files' = 1000" "take (Suc k) files' = take (Suc k) ?files"
         "drop (Suc k + length ?kept) files' = drop (Suc k + length ?kept) ?files"
         "\<forall>i < length ?kept. files' ! (Suc k + i) = scanned dir_path (?kept ! i) (?files ! (Suc k + i))"
        using Cons.IH [of "Suc k" ?files] lt Cons.prems(2) p3 by auto
      have "take k files' = take k (take (Suc k) files')" by simp
      also have "\<dots> = take k (take (Suc k) ?files)" by (simp only: r(3))
      also have "\<dots> = take k files" by simp
      finally have a: "take k files' = take k files" .
      have "files' ! k = take (Suc k) files' ! k" by simp
      also have "\<dots> = take (Suc k) ?files ! k" by (simp only: r(3))
      also have "\<dots> = f'" using kl by simp
      finally have b: "files' ! k = f'" .
      have c: "\<forall>i < length (d_name # ?kept). files' ! (k + i) =
                scanned dir_path ((d_name # ?kept) ! i) (files ! (k + i))"
      proof (intro allI impI)
        fix i assume i: "i < length (d_name # ?kept)"
        show "files' ! (k + i) = scanned dir_path ((d_name # ?kept) ! i) (files ! (k + i))"
        proof (cases i)
          case 0
          then show ?thesis using b sc by simp
        next
          case (Suc j)
          then have "j < length ?kept" using i by simp
          then have "files' ! (Suc k + j) = scanned dir_path (?kept ! j) (?files ! (Suc k + j))"
            using r(5) by simp
          then show ?thesis using Suc by simp
        qed
      qed
      have d: "drop (k + length (d_name # ?kept)) files' = drop (k + length (d_name # ?kept)) files"
        using r(4) by simp
      show ?thesis
        unfolding step kept using r(1,2) a c d by simp
    qed
  qed
qed

lemma scanned_props:
  assumes "FileInfo_sized f"
  shows "FileInfo_sized (scanned dir_path d_name f)"
    and "is_sensitive (scanned dir_path d_name f) = 0"
    and "c_str (reason (scanned dir_path d_name f)) = Some []"
    and "NUL \<notin> set d_name \<Longrightarrow> length d_name < MAX_FILENAME_LEN - 1 \<Longrightarrow>
         c_str (filename (scanned dir_path d_name f)) = Some d_name"
    and "NUL \<notin> set (full_path_of dir_path d_name) \<Longrightarrow>
         length (full_path_of dir_path d_name) < MAX_FILENAME_LEN * 2 - 1 \<Longrightarrow>
         c_str (filepath (scanned dir_path d_name f)) = Some (full_path_of dir_path d_name)"
  using store_entry_sized [OF assms, of d_name "full_path_of dir_path d_name"]
  by (auto simp: scanned_def)

lemma scan_directory_opened:
  assumes "length files0 = 1000" and "\<forall>f \<in> set files0. FileInfo_sized f"
    and "dirs w dir_path = Inr names"
  shows "\<exists>files'. scan_directory w dir_path files0 0 =
             Some (files', int (length (scan_kept w dir_path names)), w) \<and>
           length files' = 1000 \<and>
           drop (length (scan_kept w dir_path names)) files' =
             drop (length (scan_kept w dir_path names)) files0 \<and>
           (\<forall>i < length (scan_kept w dir_path names).
              files' ! i = scanned dir_path (scan_kept w dir_path names ! i) (files0 ! i))"
proof -
  from scan_loop_spec [of 0 files0 w dir_path names] assms(1,2)
  obtain files' where
    "scan_loop w dir_path names files0 0 = Some (files', int (length (scan_kept w dir_path names)))"
    "length files' = 1000"
    "drop (length (scan_kept w dir_path names)) files' =
       drop (length (scan_kept w dir_path names)) files0"
    "\<forall>i < length (scan_kept w dir_path names).
       files' ! i = scanned dir_path (scan_kept w dir_path names ! i) (files0 ! i)"
    by (auto simp: scan_kept_def)
  then show ?thesis
    by (simp add: scan_directory_def assms(3))
qed

lemma scan_directory_closed:
  "dirs w dir_path = Inl e \<Longrightarrow>
   scan_directory w dir_path files file_count =
     Some (files, file_count, w\<lparr>err := err w @ [''Could not open directory: '' @ e]\<rparr>)"
  by (simp add: scan_directory_def)

lemma stat_plain: "nodes w path = Some (Plain t) \<Longrightarrow> stat w path = Some t"
  by (simp add: stat_def eval_nat_numeral)

lemma stat_link_plain:
  "nodes w path = Some (Symlink target) \<Longrightarrow> nodes w target = Some (Plain t) \<Longrightarrow>
   stat w path = Some t"
  by (simp add: stat_def eval_nat_numeral)

lemma stat_missing: "nodes w path = None \<Longrightarrow> stat w path = None"
  by (simp add: stat_def eval_nat_numeral)

lemma length_scan_kept: "length (scan_kept w dir_path names) \<le> 1000"
  by (simp add: scan_kept_def)

lemma retained_plain:
  "nodes w (full_path_of dir_path d) = Some (Plain t) \<Longrightarrow>
   retained w dir_path d \<longleftrightarrow> (\<not> is_dot_entry d \<and> t = Regular)"
  unfolding retained_def by (simp only: stat_plain option.inject)

lemma scan_kept_no_links:
  assumes "\<forall>d \<in> set names. \<not> is_dot_entry d \<longrightarrow>
             (\<exists>t. nodes w (full_path_of dir_path d) = Some (Plain t))"
  shows "scan_kept w dir_path names =
           take 1000 (filter (\<lambda>d. \<not> is_dot_entry d \<and>
                                  nodes w (full_path_of dir_path d) = Some (Plain Regular)) names)"
proof -
  have "retained w dir_path d \<longleftrightarrow>
          (\<not> is_dot_entry d \<and> nodes w (full_path_of dir_path d) = Some (Plain Regular))"
    if mem: "d \<in> set names" for d
  proof (cases "is_dot_entry d")
    case False
    then obtain t where t: "nodes w (full_path_of dir_path d) = Some (Plain t)"
      using assms mem by blast
    show ?thesis
      unfolding retained_plain [OF t] t by simp
  next
    case True
    then show ?thesis unfolding retained_def by simp
  qed
  then have "filter (retained w dir_path) names =
      filter (\<lambda>d. \<not> is_dot_entry d \<and>
                   nodes w (full_path_of dir_path d) = Some (Plain Regular)) names"
    by (intro filter_cong) simp_all
  then show ?thesis by (simp add: scan_kept_def)
qed

lemma blank_files_sized: "length blank_files = 1000" "\<forall>f \<in> set blank_files. FileInfo_sized f"
  by (simp_all add: blank_files_def blank_record_def FileInfo_sized_def MAX_FILENAME_LEN_def)

lemma blank_files_nth: "i < 1000 \<Longrightarrow> blank_files ! i = blank_record"
  by (simp add: blank_files_def)

lemma full_path_short:
  "length dir_path + length d_name < 511 \<Longrightarrow> full_path_of dir_path d_name = dir_path @ ''/'' @ d_name"
  by (simp add: full_path_of_def snprintf_str_def MAX_FILENAME_LEN_def)

theorem scan_retains_symlink:
  "dirs link_world ''d'' = Inr [''.'', ''..'', ''link'']
   \<and> nodes link_world ''d/link'' = Some (Symlink ''/etc/hostname'')
   \<and> (\<exists>files'. scan_directory link_world ''d'' blank_files 0 = Some (files', 1, link_world)
        \<and> c_str (filename (files' ! 0)) = Some ''link'')"
proof -
  have d: "dirs link_world ''d'' = Inr [''.'', ''..'', ''link'']"
    by (simp add: link_world_def)
  have n: "nodes link_world ''d/link'' = Some (Symlink ''/etc/hostname'')"
    "nodes link_world ''/etc/hostname'' = Some (Plain Regular)"
    by (simp_all add: link_world_def)
  have fp: "full_path_of ''d'' ''link'' = ''d/link''"
    by (simp add: full_path_short)
  have "stat link_world ''d/link'' = Some Regular"
    using n by (rule stat_link_plain)
  then have k: "scan_kept link_world ''d'' [''.'', ''..'', ''link''] = [''link'']"
    by (simp add: scan_kept_def retained_def fp is_dot_entry_def)
  obtain files' where f:
    "scan_directory link_world ''d'' blank_files 0 =
       Some (files', int (length (scan_kept link_world ''d'' [''.'', ''..'', ''link''])), link_world)"
    "\<forall>i < length (scan_kept link_world ''d'' [''.'', ''..'', ''link'']).
       files' ! i = scanned ''d'' (scan_kept link_world ''d'' [''.'', ''..'', ''link''] ! i)
                      (blank_files ! i)"
    using scan_directory_opened [OF blank_files_sized d] by blast
  have "files' ! 0 = scanned ''d'' ''link'' blank_record"
    using f(2) by (simp add: k blank_files_nth)
  moreover have "FileInfo_sized blank_record"
    using blank_files_sized(2) by (simp add: blank_files_def)
  ultimately have "c_str (filename (files' ! 0)) = Some ''link''"
    by (simp add: scanned_props(4) NUL_def MAX_FILENAME_LEN_def)
  with f(1) d n(1) show ?thesis by (auto simp: k)
qed


lemma retained_link:
  "\<not> is_dot_entry d \<Longrightarrow> nodes w (full_path_of dir_path d) = Some (Symlink target) \<Longrightarrow>
   nodes w target = Some (Plain Regular) \<Longrightarrow> retained w dir_path d"
  unfolding retained_def by (simp only: stat_link_plain simp_thms)

lemma full_path_fits:
  "length (entry_path dir_path d) < MAX_FILENAME_LEN * 2 \<Longrightarrow>
   full_path_of dir_path d = entry_path dir_path d"
  by (simp add: full_path_of_def entry_path_def snprintf_str_def)

lemma scan_kept_fits:
  assumes "\<forall>d \<in> set names. length (entry_path dir_path d) < MAX_FILENAME_LEN * 2"
  shows "scan_kept w dir_path names = regular_entries w dir_path names"
proof -
  have "filter (retained w dir_path) names =
        filter (\<lambda>d. \<not> is_dot_entry d \<and> stat w (entry_path dir_path d) = Some Regular) names"
    using assms by (intro filter_cong) (simp_all add: retained_def full_path_fits)
  then show ?thesis by (simp add: scan_kept_def regular_entries_def)
qed

lemma regular_entries_subset: "set (regular_entries w dir_path names) \<subseteq> set names"
proof -
  have "set (regular_entries w dir_path names) \<subseteq>
        set (filter (\<lambda>d. \<not> is_dot_entry d \<and> stat w (entry_path dir_path d) = Some Regular) names)"
    unfolding regular_entries_def by (rule set_take_subset)
  then show ?thesis by auto
qed

lemma regular_entries_no_links:
  assumes "\<forall>d \<in> set names. \<not> is_dot_entry d \<longrightarrow>
             (\<exists>t. nodes w (entry_path dir_path d) = Some (Plain t))"
  shows "regular_entries w dir_path names =
           take 1000 (filter (\<lambda>d. \<not> is_dot_entry d \<and>
                                  nodes w (entry_path dir_path d) = Some (Plain Regular)) names)"
proof -
  have "(\<not> is_dot_entry d \<and> stat w (entry_path dir_path d) = Some Regular) \<longleftrightarrow>
          (\<not> is_dot_entry d \<and> nodes w (entry_path dir_path d) = Some (Plain Regular))"
    if mem: "d \<in> set names" for d
  proof (cases "is_dot_entry d")
    case False
    then obtain t where t: "nodes w (entry_path dir_path d) = Some (Plain t)"
      using assms mem by blast
    then have "stat w (entry_path dir_path d) = Some t" by (rule stat_plain)
    then show ?thesis using t by simp
  next
    case True
    then show ?thesis by simp
  qed
  then have "filter (\<lambda>d. \<not> is_dot_entry d \<and> stat w (entry_path dir_path d) = Some Regular) names =
      filter (\<lambda>d. \<not> is_dot_entry d \<and>
                   nodes w (entry_path dir_path d) = Some (Plain Regular)) names"
    by (intro filter_cong) simp_all
  then show ?thesis by (simp add: regular_entries_def)
qed

lemma stat_link_dangling:
  "nodes w path = Some (Symlink target) \<Longrightarrow> nodes w target = None \<Longrightarrow> stat w path = None"
  by (simp add: stat_def eval_nat_numeral)

lemma scan_directory_fits:
  assumes "length files0 = 1000" and "\<forall>f \<in> set files0. FileInfo_sized f"
    and "c_string dir_path"
    and "dirs w dir_path = Inr names"
    and "\<forall>d \<in> set names. c_string d \<and> length (entry_path dir_path d) < MAX_FILENAME_LEN * 2 - 1"
  shows "\<exists>files'. scan_directory w dir_path files0 0 =
             Some (files', int (length (regular_entries w dir_path names)), w) \<and>
           (\<forall>i < length (regular_entries w dir_path names).
              c_str (filepath (files' ! i)) =
                Some (entry_path dir_path (regular_entries w dir_path names ! i)) \<and>
              is_sensitive (files' ! i) = 0 \<and> c_str (reason (files' ! i)) = Some [] \<and>
              (length (regular_entries w dir_path names ! i) < MAX_FILENAME_LEN - 1 \<longrightarrow>
                 c_str (filename (files' ! i)) = Some (regular_entries w dir_path names ! i))) \<and>
           drop (length (regular_entries w dir_path names)) files' =
             drop (length (regular_entries w dir_path names)) files0"
proof -
  let ?kept = "regular_entries w dir_path names"
  have fit: "\<forall>d \<in> set names. length (entry_path dir_path d) < MAX_FILENAME_LEN * 2"
    using assms(5) by auto
  have k: "scan_kept w dir_path names = ?kept" using fit by (rule scan_kept_fits)
  obtain files' where f:
    "scan_directory w dir_path files0 0 = Some (files', int (length ?kept), w)"
    "length files' = 1000"
    "drop (length ?kept) files' = drop (length ?kept) files0"
    "\<forall>i < length ?kept. files' ! i = scanned dir_path (?kept ! i) (files0 ! i)"
    using scan_directory_opened [OF assms(1,2,4)] unfolding k by blast
  have "c_str (filepath (files' ! i)) = Some (entry_path dir_path (?kept ! i)) \<and>
        is_sensitive (files' ! i) = 0 \<and> c_str (reason (files' ! i)) = Some [] \<and>
        (length (?kept ! i) < MAX_FILENAME_LEN - 1 \<longrightarrow>
           c_str (filename (files' ! i)) = Some (?kept ! i))"
    if i: "i < length ?kept" for i
  proof -
    have "i < length files0"
      using i length_scan_kept [of w dir_path names] assms(1) unfolding k by simp
    then have sz: "FileInfo_sized (files0 ! i)" using assms(2) by simp
    have "?kept ! i \<in> set names" using i regular_entries_subset nth_mem by blast
    then have d: "c_string (?kept ! i)"
      "length (entry_path dir_path (?kept ! i)) < MAX_FILENAME_LEN * 2 - 1"
      using assms(5) by auto
    then have fp: "full_path_of dir_path (?kept ! i) = entry_path dir_path (?kept ! i)"
      by (simp add: full_path_fits)
    have nul: "NUL \<notin> set (?kept ! i)" "NUL \<notin> set (entry_path dir_path (?kept ! i))"
      using d(1) assms(3) by (simp_all add: c_string_def entry_path_def NUL_def)
    have eq: "files' ! i = scanned dir_path (?kept ! i) (files0 ! i)" using f(4) i by simp
    have "c_str (filepath (files' ! i)) = Some (entry_path dir_path (?kept ! i))"
      using scanned_props(5) [OF sz, of dir_path "?kept ! i"] nul(2) d(2)
      unfolding eq fp by simp
    moreover have "length (?kept ! i) < MAX_FILENAME_LEN - 1 \<longrightarrow>
           c_str (filename (files' ! i)) = Some (?kept ! i)"
      using scanned_props(4) [OF sz nul(1)] unfolding eq by simp
    ultimately show ?thesis
      using scanned_props(2,3) [OF sz] unfolding eq by simp
  qed
  with f(1,3) show ?thesis by blast
qed

text \<open>
  \<^bold>\<open>C6\<close>, as the code has it. Take a directory that can be opened and whose entries
  all have a full path \<open>dir/name\<close> of at most 510 bytes, so that
  \<^verbatim>\<open>char full_path[512]\<close> and the \<open>filepath\<close> array hold it whole with its terminator.
  The scan stores one record per entry that is not \<open>.\<close> or \<open>..\<close> and that
  \<^verbatim>\<open>stat\<close> on its full path reports as a regular file, in the order of
  \<^verbatim>\<open>readdir\<close>, 1000 at most; the later ones are dropped without a message. Each
  record holds the entry's full path, a cleared flag, an empty reason and (for a name
  of fewer than 255 bytes) the entry's name; the rest of the array is left as it was.
  \<^verbatim>\<open>stat\<close> follows symbolic links: a link that leads to a regular file is reported
  as one, and so retained under its own name; a directory, a special file, a dangling
  link and a path with nothing behind it are not. Where every entry other than \<open>.\<close>
  and \<open>..\<close> is a regular file, a directory or a special file for \<^verbatim>\<open>lstat\<close> (none
  is a link, none is hidden from the program), the records are the regular files (the
  first 1000 of them), and sub-directories and special files give none. For a directory that cannot be opened the scan leaves the array and the
  count (zero in \<open>main\<close>) as they are and writes the system's error text to the error
  stream.
\<close>

theorem scan_directory_keeps_what_stat_reports_regular:
  assumes "length files0 = 1000" and "\<forall>f \<in> set files0. FileInfo_sized f"
    and "c_string dir_path"
  shows
    "(\<forall>names. dirs w dir_path = Inr names \<and>
        (\<forall>d \<in> set names. c_string d \<and>
                           length (entry_path dir_path d) < MAX_FILENAME_LEN * 2 - 1) \<longrightarrow>
        (\<exists>files'. scan_directory w dir_path files0 0 =
                     Some (files', int (length (regular_entries w dir_path names)), w) \<and>
           (\<forall>i < length (regular_entries w dir_path names).
              c_str (filepath (files' ! i)) =
                Some (entry_path dir_path (regular_entries w dir_path names ! i)) \<and>
              is_sensitive (files' ! i) = 0 \<and> c_str (reason (files' ! i)) = Some [] \<and>
              (length (regular_entries w dir_path names ! i) < MAX_FILENAME_LEN - 1 \<longrightarrow>
                 c_str (filename (files' ! i)) = Some (regular_entries w dir_path names ! i))) \<and>
           drop (length (regular_entries w dir_path names)) files' =
             drop (length (regular_entries w dir_path names)) files0) \<and>
        length (regular_entries w dir_path names) \<le> 1000 \<and>
        ((\<forall>d \<in> set names. \<not> is_dot_entry d \<longrightarrow>
             (\<exists>t. nodes w (entry_path dir_path d) = Some (Plain t))) \<longrightarrow>
           regular_entries w dir_path names =
             take 1000 (filter (\<lambda>d. \<not> is_dot_entry d \<and>
                            nodes w (entry_path dir_path d) = Some (Plain Regular)) names)))
     \<and> (\<forall>p t. nodes w p = Some (Plain t) \<longrightarrow> stat w p = Some t)
     \<and> (\<forall>p target t. nodes w p = Some (Symlink target) \<and> nodes w target = Some (Plain t) \<longrightarrow>
          stat w p = Some t)
     \<and> (\<forall>p target. nodes w p = Some (Symlink target) \<and> nodes w target = None \<longrightarrow>
          stat w p = None)
     \<and> (\<forall>p. nodes w p = None \<longrightarrow> stat w p = None)
     \<and> (\<forall>e. dirs w dir_path = Inl e \<longrightarrow>
          scan_directory w dir_path files0 0 =
            Some (files0, 0, w\<lparr>err := err w @ [''Could not open directory: '' @ e]\<rparr>))"
proof (intro conjI allI impI)
  fix names
  assume a: "dirs w dir_path = Inr names \<and>
        (\<forall>d \<in> set names. c_string d \<and>
                           length (entry_path dir_path d) < MAX_FILENAME_LEN * 2 - 1)"
  then have d: "dirs w dir_path = Inr names"
    and fit: "\<forall>d \<in> set names. c_string d \<and>
                length (entry_path dir_path d) < MAX_FILENAME_LEN * 2 - 1"
    by simp_all
  show "\<exists>files'. scan_directory w dir_path files0 0 =
                     Some (files', int (length (regular_entries w dir_path names)), w) \<and>
           (\<forall>i < length (regular_entries w dir_path names).
              c_str (filepath (files' ! i)) =
                Some (entry_path dir_path (regular_entries w dir_path names ! i)) \<and>
              is_sensitive (files' ! i) = 0 \<and> c_str (reason (files' ! i)) = Some [] \<and>
              (length (regular_entries w dir_path names ! i) < MAX_FILENAME_LEN - 1 \<longrightarrow>
                 c_str (filename (files' ! i)) = Some (regular_entries w dir_path names ! i))) \<and>
           drop (length (regular_entries w dir_path names)) files' =
             drop (length (regular_entries w dir_path names)) files0"
    using assms d fit by (rule scan_directory_fits)
  show "length (regular_entries w dir_path names) \<le> 1000"
    by (simp add: regular_entries_def)
  assume "\<forall>d \<in> set names. \<not> is_dot_entry d \<longrightarrow>
             (\<exists>t. nodes w (entry_path dir_path d) = Some (Plain t))"
  then show "regular_entries w dir_path names =
             take 1000 (filter (\<lambda>d. \<not> is_dot_entry d \<and>
                            nodes w (entry_path dir_path d) = Some (Plain Regular)) names)"
    by (rule regular_entries_no_links)
next
  fix p t assume "nodes w p = Some (Plain t)"
  then show "stat w p = Some t" by (rule stat_plain)
next
  fix p target t
  assume "nodes w p = Some (Symlink target) \<and> nodes w target = Some (Plain t)"
  then show "stat w p = Some t" using stat_link_plain by blast
next
  fix p target
  assume "nodes w p = Some (Symlink target) \<and> nodes w target = None"
  then show "stat w p = None" using stat_link_dangling by blast
next
  fix p assume "nodes w p = None"
  then show "stat w p = None" by (rule stat_missing)
next
  fix e assume "dirs w dir_path = Inl e"
  then show "scan_directory w dir_path files0 0 =
            Some (files0, 0, w\<lparr>err := err w @ [''Could not open directory: '' @ e]\<rparr>)"
    by (rule scan_directory_closed)
qed

theorem scan_directory_keeps_what_stat_reports_regular_witness:
  "(\<exists>files'. scan_directory docs_world ''docs'' blank_files 0 = Some (files', 3, docs_world)
      \<and> c_str (filename (files' ! 0)) = Some ''tax_2023.pdf''
      \<and> c_str (filepath (files' ! 0)) = Some ''docs/tax_2023.pdf''
      \<and> is_sensitive (files' ! 0) = 0 \<and> c_str (reason (files' ! 0)) = Some []
      \<and> c_str (filename (files' ! 1)) = Some ''link''
      \<and> c_str (filepath (files' ! 1)) = Some ''docs/link''
      \<and> c_str (filename (files' ! 2)) = Some ''notes.txt''
      \<and> files' ! 3 = blank_record)
   \<and> (\<exists>files'. scan_directory plain_world ''plain'' blank_files 0 = Some (files', 2, plain_world)
      \<and> c_str (filename (files' ! 0)) = Some ''a.txt''
      \<and> c_str (filename (files' ! 1)) = Some ''b.txt'')
   \<and> stat docs_world ''docs/photos'' = Some Directory
   \<and> stat docs_world ''docs/tty'' = Some Special
   \<and> stat docs_world ''docs/link'' = Some Regular
   \<and> stat docs_world ''docs/lost'' = None
   \<and> stat docs_world ''docs/none'' = None
   \<and> scan_directory docs_world ''nowhere'' blank_files 0 =
       Some (blank_files, 0,
             docs_world\<lparr>err := [''Could not open directory: No such file or directory'']\<rparr>)"
proof -
  let ?names = "[''.'', ''..'', ''tax_2023.pdf'', ''photos'', ''link'', ''tty'', ''lost'', ''notes.txt'']"
  let ?plain = "[''.'', ''a.txt'', ''sub'', ''..'', ''b.txt'']"
  have cs: "c_string ''docs''" "c_string ''plain''" "c_string ''nowhere''"
    by (simp_all add: c_string_def NUL_def)
  note T = scan_directory_keeps_what_stat_reports_regular [OF blank_files_sized]
  note D = T [OF cs(1), of docs_world]
  note P = T [OF cs(2), of plain_world]
  note N = T [OF cs(3), of docs_world]
  have d: "dirs docs_world ''docs'' = Inr ?names"
    and e: "dirs docs_world ''nowhere'' = Inl ''No such file or directory''"
    and er: "err docs_world = []"
    and p: "dirs plain_world ''plain'' = Inr ?plain"
    by (simp_all add: docs_world_def plain_world_def)
  have nd: "nodes docs_world ''docs/tax_2023.pdf'' = Some (Plain Regular)"
    "nodes docs_world ''docs/photos'' = Some (Plain Directory)"
    "nodes docs_world ''docs/link'' = Some (Symlink ''/etc/hostname'')"
    "nodes docs_world ''/etc/hostname'' = Some (Plain Regular)"
    "nodes docs_world ''docs/tty'' = Some (Plain Special)"
    "nodes docs_world ''docs/lost'' = Some (Symlink ''/nowhere'')"
    "nodes docs_world ''/nowhere'' = None"
    "nodes docs_world ''docs/none'' = None"
    "nodes docs_world ''docs/notes.txt'' = Some (Plain Regular)"
    by (simp_all add: docs_world_def)
  have st: "stat docs_world ''docs/tax_2023.pdf'' = Some Regular"
    "stat docs_world ''docs/photos'' = Some Directory"
    "stat docs_world ''docs/link'' = Some Regular"
    "stat docs_world ''docs/tty'' = Some Special"
    "stat docs_world ''docs/lost'' = None"
    "stat docs_world ''docs/none'' = None"
    "stat docs_world ''docs/notes.txt'' = Some Regular"
    using D nd by blast+
  have k: "regular_entries docs_world ''docs'' ?names = [''tax_2023.pdf'', ''link'', ''notes.txt'']"
    by (simp add: regular_entries_def entry_path_def is_dot_entry_def st)
  have fit: "\<forall>d \<in> set ?names. c_string d \<and>
               length (entry_path ''docs'' d) < MAX_FILENAME_LEN * 2 - 1"
    by (simp add: c_string_def NUL_def entry_path_def MAX_FILENAME_LEN_def)
  from D d fit obtain files' where f:
    "scan_directory docs_world ''docs'' blank_files 0 =
       Some (files', int (length (regular_entries docs_world ''docs'' ?names)), docs_world)"
    "\<forall>i < length (regular_entries docs_world ''docs'' ?names).
       c_str (filepath (files' ! i)) =
         Some (entry_path ''docs'' (regular_entries docs_world ''docs'' ?names ! i)) \<and>
       is_sensitive (files' ! i) = 0 \<and> c_str (reason (files' ! i)) = Some [] \<and>
       (length (regular_entries docs_world ''docs'' ?names ! i) < MAX_FILENAME_LEN - 1 \<longrightarrow>
          c_str (filename (files' ! i)) = Some (regular_entries docs_world ''docs'' ?names ! i))"
    "drop (length (regular_entries docs_world ''docs'' ?names)) files' =
       drop (length (regular_entries docs_world ''docs'' ?names)) blank_files"
    by blast
  have r: "c_str (filename (files' ! 0)) = Some ''tax_2023.pdf''"
    "c_str (filepath (files' ! 0)) = Some ''docs/tax_2023.pdf''"
    "is_sensitive (files' ! 0) = 0" "c_str (reason (files' ! 0)) = Some []"
    "c_str (filename (files' ! 1)) = Some ''link''"
    "c_str (filepath (files' ! 1)) = Some ''docs/link''"
    "c_str (filename (files' ! 2)) = Some ''notes.txt''"
    using f(2) [rule_format, of 0] f(2) [rule_format, of 1] f(2) [rule_format, of 2]
    by (simp_all add: k MAX_FILENAME_LEN_def entry_path_def)
  have l3: "length (regular_entries docs_world ''docs'' ?names) = 3" by (simp add: k)
  have e3: "drop 3 files' = drop 3 blank_files" using f(3) unfolding l3 .
  then have "length (drop 3 files') = length (drop 3 blank_files)" by simp
  then have len: "length files' = 1000" using blank_files_sized(1) by simp
  have "files' ! 3 = drop 3 files' ! 0" using len by simp
  also have "\<dots> = drop 3 blank_files ! 0" by (simp only: e3)
  also have "\<dots> = blank_record" using blank_files_sized(1) by (simp add: blank_files_nth)
  finally have r3: "files' ! 3 = blank_record" .
  have docs: "\<exists>files'. scan_directory docs_world ''docs'' blank_files 0 = Some (files', 3, docs_world)
      \<and> c_str (filename (files' ! 0)) = Some ''tax_2023.pdf''
      \<and> c_str (filepath (files' ! 0)) = Some ''docs/tax_2023.pdf''
      \<and> is_sensitive (files' ! 0) = 0 \<and> c_str (reason (files' ! 0)) = Some []
      \<and> c_str (filename (files' ! 1)) = Some ''link''
      \<and> c_str (filepath (files' ! 1)) = Some ''docs/link''
      \<and> c_str (filename (files' ! 2)) = Some ''notes.txt''
      \<and> files' ! 3 = blank_record"
    using f(1) r r3 by (intro exI [of _ files']) (simp add: k)
  have np: "\<forall>d \<in> set ?plain. \<not> is_dot_entry d \<longrightarrow>
              (\<exists>t. nodes plain_world (entry_path ''plain'' d) = Some (Plain t))"
    by (simp add: plain_world_def entry_path_def is_dot_entry_def)
  have fitp: "\<forall>d \<in> set ?plain. c_string d \<and>
               length (entry_path ''plain'' d) < MAX_FILENAME_LEN * 2 - 1"
    by (simp add: c_string_def NUL_def entry_path_def MAX_FILENAME_LEN_def)
  have "regular_entries plain_world ''plain'' ?plain =
          take 1000 (filter (\<lambda>d. \<not> is_dot_entry d \<and>
                 nodes plain_world (entry_path ''plain'' d) = Some (Plain Regular)) ?plain)"
    using P p fitp np by blast
  then have kp: "regular_entries plain_world ''plain'' ?plain = [''a.txt'', ''b.txt'']"
    by (simp add: plain_world_def entry_path_def is_dot_entry_def)
  from P p fitp obtain files'' where g:
    "scan_directory plain_world ''plain'' blank_files 0 =
       Some (files'', int (length (regular_entries plain_world ''plain'' ?plain)), plain_world)"
    "\<forall>i < length (regular_entries plain_world ''plain'' ?plain).
       c_str (filepath (files'' ! i)) =
         Some (entry_path ''plain'' (regular_entries plain_world ''plain'' ?plain ! i)) \<and>
       is_sensitive (files'' ! i) = 0 \<and> c_str (reason (files'' ! i)) = Some [] \<and>
       (length (regular_entries plain_world ''plain'' ?plain ! i) < MAX_FILENAME_LEN - 1 \<longrightarrow>
          c_str (filename (files'' ! i)) = Some (regular_entries plain_world ''plain'' ?plain ! i))"
    by blast
  have "c_str (filename (files'' ! 0)) = Some ''a.txt''"
    "c_str (filename (files'' ! 1)) = Some ''b.txt''"
    using g(2) [rule_format, of 0] g(2) [rule_format, of 1]
    by (simp_all add: kp MAX_FILENAME_LEN_def)
  then have plain: "\<exists>files'. scan_directory plain_world ''plain'' blank_files 0 =
        Some (files', 2, plain_world)
      \<and> c_str (filename (files' ! 0)) = Some ''a.txt''
      \<and> c_str (filename (files' ! 1)) = Some ''b.txt''"
    using g(1) by (intro exI [of _ files'']) (simp add: kp)
  have closed: "scan_directory docs_world ''nowhere'' blank_files 0 =
       Some (blank_files, 0,
             docs_world\<lparr>err := [''Could not open directory: No such file or directory'']\<rparr>)"
    using N e by (simp add: er)
  show ?thesis
    using docs plain st(2,4,3,5,6) closed by (intro conjI)
qed


subsection \<open>\<open>create_backup\<close>\<close>














lemma backup_path_differs:
  "dir @ ''/'' @ name \<noteq> BACKUP_DIR @ ''/'' @ time_stamp t @ ''_'' @ name"
proof
  assume "dir @ ''/'' @ name = BACKUP_DIR @ ''/'' @ time_stamp t @ ''_'' @ name"
  then have "(dir @ ''/'') @ name = (BACKUP_DIR @ ''/'' @ time_stamp t @ ''_'') @ name" by simp
  then have "dir @ ''/'' = BACKUP_DIR @ ''/'' @ time_stamp t @ ''_''"
    by (simp only: append_same_eq)
  then have "last (dir @ ''/'') = last (BACKUP_DIR @ ''/'' @ time_stamp t @ ''_'')" by simp
  then show False by simp
qed



















subsection \<open>\<open>main\<close>\<close>

lemma main_exit_code: "main argv files0 uninit w = Some (code, w') \<Longrightarrow> code = 0"
  by (auto simp: main_def Let_def split: option.splits prod.splits if_splits Option.bind_splits)

lemma main_closed:
  assumes "dirs w (scan_dir_of argv) = Inl e"
  shows "main argv files0 uninit w =
           Some (0, w\<lparr>err := err w @ [''Could not open directory: '' @ e]\<rparr>)"
proof -
  have "scan_directory w (scan_dir_of argv) files0 0 =
      Some (files0, 0, w\<lparr>err := err w @ [''Could not open directory: '' @ e]\<rparr>)"
    using assms by (rule scan_directory_closed)
  then show ?thesis
    unfolding main_def Let_def scan_dir_of_def [symmetric] by simp
qed

lemma fopen_wb_clock: "fopen_wb w path = Some (dst, w2) \<Longrightarrow> clock w2 = clock w"
  by (auto simp: fopen_wb_def split: if_splits option.splits node.splits file_type.splits)

lemma fwrite_all_clock: "clock (fwrite_all w path dst bs) = clock w"
  by (simp add: fwrite_all_def split: option.splits)

lemma create_backup_defined:
  assumes "c_str (filename file) = Some name" and "c_str (filepath file) = Some path"
    and "clock_ok w"
  shows "\<exists>w'. create_backup file w = Some w' \<and> clock w' = clock w"
proof -
  from assms(3) obtain t where t: "clock w (tick w) = Some t" "calendar_time t"
    unfolding clock_ok_def by (metis option.case_eq_if option.collapse)
  then have a: "add_int (tm_year t) 1900 = Some (tm_year t + 1900)"
    "add_int (tm_mon t) 1 = Some (tm_mon t + 1)"
    by (simp_all add: calendar_time_def add_int_def INT_MAX_def INT_MIN_def)
  then obtain bp where bp: "backup_path_of t name = Some bp"
    by (simp add: backup_path_of_def)
  let ?w1 = "w\<lparr>tick := tick w + 1\<rparr>"
  show ?thesis
  proof (cases "fopen_rb ?w1 path")
    case None
    then show ?thesis by (simp add: create_backup_def assms(1,2) t(1) bp Let_def)
  next
    case src: (Some src)
    show ?thesis
    proof (cases "fopen_wb ?w1 bp")
      case None
      then show ?thesis using src by (simp add: create_backup_def assms(1,2) t(1) bp Let_def)
    next
      case (Some r)
      obtain dst w2 where r: "r = (dst, w2)" by (cases r)
      then have "clock w2 = clock w" using Some fopen_wb_clock [of ?w1 bp dst w2] by simp
      then show ?thesis
        using src Some r
        by (simp add: create_backup_def assms(1,2) t(1) bp Let_def fwrite_all_clock)
    qed
  qed
qed

lemma clock_ok_cong: "clock w' = clock w \<Longrightarrow> clock_ok w \<Longrightarrow> clock_ok w'"
  by (simp add: clock_ok_def)

lemma backup_loop_defined:
  assumes "n \<le> length files"
    and "\<forall>f \<in> set (take n files). c_str (filename f) \<noteq> None \<and> c_str (filepath f) \<noteq> None"
    and "clock_ok w" and "i \<le> n"
  shows "\<exists>w'. backup_loop files (int n) (int i) w = Some w'"
  using assms(3,4)
proof (induction "n - i" arbitrary: i w)
  case 0
  then have "i = n" by simp
  then show ?case by (subst backup_loop.simps) simp
next
  case (Suc m)
  then have lt: "i < n" by simp
  then have il: "i < length files" using assms(1) by simp
  have "files ! i \<in> set (take n files)"
    using lt il by (metis in_set_conv_nth length_take min_less_iff_conj nth_take)
  then obtain name path where s: "c_str (filename (files ! i)) = Some name"
    "c_str (filepath (files ! i)) = Some path"
    using assms(2) by auto
  have next_ok: "\<exists>w'. backup_loop files (int n) (int (Suc i)) v = Some w'" if "clock_ok v" for v
    using Suc.hyps(1) [of "Suc i" v] Suc.hyps(2) that lt by simp
  show ?case
  proof (cases "is_sensitive (files ! i) \<noteq> 0")
    case True
    obtain w1 where w1: "create_backup (files ! i) w = Some w1" "clock w1 = clock w"
      using create_backup_defined [OF s Suc.prems(1)] by blast
    have "clock_ok w1" using w1(2) Suc.prems(1) by (rule clock_ok_cong)
    then obtain w' where "backup_loop files (int n) (int (Suc i)) w1 = Some w'"
      using next_ok by blast
    then show ?thesis
      using lt il True w1(1) by (subst backup_loop.simps) (simp add: add.commute)
  next
    case False
    obtain w' where "backup_loop files (int n) (int (Suc i)) w = Some w'"
      using next_ok [OF Suc.prems(1)] by blast
    then show ?thesis
      using lt il False by (subst backup_loop.simps) (simp add: add.commute)
  qed
qed

lemma clock_ok_create_backup_directory: "clock_ok w \<Longrightarrow> clock_ok (create_backup_directory w)"
  by (simp add: clock_ok_def create_backup_directory_def)

lemma main_defined:
  assumes "length files0 = 1000" and "\<forall>f \<in> set files0. FileInfo_sized f"
    and "\<forall>j. length (uninit j) = MAX_FILENAME_LEN"
    and "clock_ok w"
    and "dirs w (scan_dir_of argv) = Inr names"
    and "names_fit w (scan_dir_of argv) names"
  shows "\<exists>w'. main argv files0 uninit w = Some (0, w')"
proof -
  let ?dir = "scan_dir_of argv"
  let ?kept = "scan_kept w ?dir names"
  let ?n = "length ?kept"
  obtain files where f:
    "scan_directory w ?dir files0 0 = Some (files, int ?n, w)"
    "length files = 1000"
    "\<forall>i < ?n. files ! i = scanned ?dir (?kept ! i) (files0 ! i)"
    using scan_directory_opened [OF assms(1,2,5)] by blast
  have n: "?n \<le> length files" using f(2) length_scan_kept [of w ?dir names] by simp
  have rec: "classifiable (files ! i) \<and> c_str (filename (files ! i)) \<noteq> None \<and>
             c_str (filepath (files ! i)) \<noteq> None" if i: "i < ?n" for i
  proof -
    have "i < length files0" using i n f(2) assms(1) by simp
    then have sz: "FileInfo_sized (files0 ! i)" using assms(2) by simp
    have fit: "NUL \<notin> set (?kept ! i)" "length (?kept ! i) < MAX_FILENAME_LEN - 1"
      "NUL \<notin> set (full_path_of ?dir (?kept ! i))"
      "length (full_path_of ?dir (?kept ! i)) < MAX_FILENAME_LEN * 2 - 1"
      using assms(6) i by (simp_all add: names_fit_def list_all_length)
    have eq: "files ! i = scanned ?dir (?kept ! i) (files0 ! i)" using f(3) i by simp
    have "c_str (filename (files ! i)) = Some (?kept ! i)"
      unfolding eq using fit(1,2) by (rule scanned_props(4) [OF sz])
    moreover have "c_str (filepath (files ! i)) = Some (full_path_of ?dir (?kept ! i))"
      unfolding eq using fit(3,4) by (rule scanned_props(5) [OF sz])
    moreover have "length (reason (files ! i)) = 512"
      unfolding eq using scanned_props(1) [OF sz] by (simp add: FileInfo_sized_def)
    ultimately show ?thesis using fit(2) by (simp add: classifiable_def)
  qed
  have all: "\<forall>f \<in> set (take ?n files). classifiable f"
    using rec n by (auto simp: in_set_conv_nth)
  let ?files' = "map spec_classify (take ?n files) @ drop ?n files"
  have c: "classify_files_with_llm uninit files (int ?n) =
      Some (?files', int (length (filter flagged (take ?n files))))"
    using assms(3) all n by (rule classify_files_with_llm_prefix)
  have strs: "\<forall>f \<in> set (take ?n ?files'). c_str (filename f) \<noteq> None \<and> c_str (filepath f) \<noteq> None"
    using rec n by (auto simp: in_set_conv_nth)
  have "?n \<le> length ?files'" using n by simp
  from backup_loop_defined [OF this strs clock_ok_create_backup_directory [OF assms(4)], of 0]
  obtain w3 where b: "backup_loop ?files' (int ?n) 0 (create_backup_directory w) = Some w3"
    by auto
  show ?thesis
    unfolding main_def Let_def scan_dir_of_def [symmetric] f(1)
    using c b by simp
qed


text \<open>
  \<^bold>\<open>C8.\<close> The classifier's exit code is 0 on every run that returns from \<open>main\<close>:
  whatever the arguments, the directory and the files, a run that returns returns 0.
  Runs do return: when the directory cannot be opened \<open>main\<close> logs the error and
  returns 0; and when the directory can be opened, the retained names fit their arrays
  and the clock is sane, \<open>main\<close> returns 0 whether it found no file, flagged none, or
  went through the backups, failed ones included. No path returns another code.
\<close>

theorem main_exits_with_zero:
  "(\<forall>code w'. main argv files0 uninit w = Some (code, w') \<longrightarrow> code = 0)
   \<and> (\<forall>e. dirs w (scan_dir_of argv) = Inl e \<longrightarrow>
         main argv files0 uninit w =
           Some (0, w\<lparr>err := err w @ [''Could not open directory: '' @ e]\<rparr>))
   \<and> (length files0 = 1000 \<and> (\<forall>f \<in> set files0. FileInfo_sized f) \<and>
       (\<forall>j. length (uninit j) = MAX_FILENAME_LEN) \<and> clock_ok w \<and>
       (\<exists>names. dirs w (scan_dir_of argv) = Inr names \<and> names_fit w (scan_dir_of argv) names)
       \<longrightarrow> (\<exists>w'. main argv files0 uninit w = Some (0, w')))"
proof (intro conjI allI impI)
  fix code w' assume "main argv files0 uninit w = Some (code, w')"
  then show "code = 0" by (rule main_exit_code)
next
  fix e assume "dirs w (scan_dir_of argv) = Inl e"
  then show "main argv files0 uninit w =
           Some (0, w\<lparr>err := err w @ [''Could not open directory: '' @ e]\<rparr>)"
    by (rule main_closed)
next
  assume a: "length files0 = 1000 \<and> (\<forall>f \<in> set files0. FileInfo_sized f) \<and>
       (\<forall>j. length (uninit j) = MAX_FILENAME_LEN) \<and> clock_ok w \<and>
       (\<exists>names. dirs w (scan_dir_of argv) = Inr names \<and> names_fit w (scan_dir_of argv) names)"
  then obtain names where "dirs w (scan_dir_of argv) = Inr names"
    "names_fit w (scan_dir_of argv) names" by blast
  with a show "\<exists>w'. main argv files0 uninit w = Some (0, w')"
    using main_defined [of files0 uninit w argv names] by blast
qed

theorem main_exits_with_zero_witness:
  "(\<exists>w'. main [''llm_backup'', ''office''] blank_files (\<lambda>j. replicate 256 CHR ''x'') office_world
            = Some (0, w'))
   \<and> main [''llm_backup'', ''nowhere''] blank_files (\<lambda>j. replicate 256 CHR ''x'') office_world
       = Some (0, office_world\<lparr>err := [''Could not open directory: No such file or directory'']\<rparr>)"
proof -
  let ?names = "[''.'', ''..'', ''bank_statement.txt'', ''holiday.jpg'', ''archive'']"
  let ?u = "\<lambda>j::nat. replicate 256 CHR ''x''"
  have sd: "scan_dir_of [''llm_backup'', ''office''] = ''office''"
    "scan_dir_of [''llm_backup'', ''nowhere''] = ''nowhere''"
    by (simp_all add: scan_dir_of_def)
  have d: "dirs office_world ''office'' = Inr ?names"
    and e: "dirs office_world ''nowhere'' = Inl ''No such file or directory''"
    and er: "err office_world = []"
    by (simp_all add: office_world_def)
  have st: "stat office_world ''office/bank_statement.txt'' = Some Regular"
    "stat office_world ''office/holiday.jpg'' = Some Regular"
    "stat office_world ''office/archive'' = Some Directory"
    by (simp_all add: stat_def office_world_def eval_nat_numeral)
  have fp: "full_path_of ''office'' ''bank_statement.txt'' = ''office/bank_statement.txt''"
    "full_path_of ''office'' ''holiday.jpg'' = ''office/holiday.jpg''"
    "full_path_of ''office'' ''archive'' = ''office/archive''"
    by (simp_all add: full_path_short)
  have k: "scan_kept office_world ''office'' ?names = [''bank_statement.txt'', ''holiday.jpg'']"
    by (simp add: scan_kept_def retained_def fp is_dot_entry_def st)
  have nf: "names_fit office_world ''office'' ?names"
    unfolding names_fit_def k by (simp add: fp NUL_def MAX_FILENAME_LEN_def)
  have ck: "clock_ok office_world"
    by (simp add: clock_ok_def office_world_def calendar_time_def)
  have u: "\<forall>j. length (?u j) = MAX_FILENAME_LEN" by (simp add: MAX_FILENAME_LEN_def)
  note T = main_exits_with_zero [of _ blank_files ?u office_world]
  have "\<exists>w'. main [''llm_backup'', ''office''] blank_files ?u office_world = Some (0, w')"
    using T [of "[''llm_backup'', ''office'']"] blank_files_sized u ck d nf
    unfolding sd by blast
  moreover have "main [''llm_backup'', ''nowhere''] blank_files ?u office_world
       = Some (0, office_world\<lparr>err := [''Could not open directory: No such file or directory'']\<rparr>)"
    using T [of "[''llm_backup'', ''nowhere'']"] e unfolding sd by (simp add: er)
  ultimately show ?thesis by blast
qed

section \<open>The example images\<close>

text \<open>The section headers of \<open>demo_elf\<close> and what they say.\<close>

lemma demo_elf_sections:
  "get_section elf64 demo_elf ''.poly'' = Some (Some 200)"
  "get_section elf64 demo_elf ''.data'' = Some (Some 264)"
  "get_section elf64 demo_elf ''.rodata'' = Some (Some 328)"
  "get_section elf64 demo_elf ''.bss'' = Some (Some 392)"
  by (simp_all add: get_section_def rd_def rd_bytes_def elf64_def demo_elf_def le_nat_def
        section_loop.simps)

lemma demo_elf_fields:
  "rd le_nat demo_elf 264 (sh_offset elf64) = Some 72" "rd le_nat demo_elf 264 (sh_size elf64) = Some 16"
  "rd le_nat demo_elf 328 (sh_offset elf64) = Some 88" "rd le_nat demo_elf 328 (sh_size elf64) = Some 8"
  "rd le_nat demo_elf 392 (sh_offset elf64) = Some 96" "rd le_nat demo_elf 392 (sh_size elf64) = Some 4"
  by (simp_all add: rd_def rd_bytes_def elf64_def demo_elf_def le_nat_def)

lemma demo_elf_addresses:
  "rd le_nat demo_elf 264 (sh_addr elf64) = Some 4168"
  "rd le_nat demo_elf 328 (sh_addr elf64) = Some 4184"
  "rd le_nat demo_elf 392 (sh_addr elf64) = Some 4192"
  by (simp_all add: rd_def rd_bytes_def elf64_def demo_elf_def le_nat_def)


section \<open>Facts about the mutators\<close>

subsection \<open>The transform outside and inside the buffer\<close>

lemma xor_loop_outside:
  "0 \<le> i \<Longrightarrow> i < len \<Longrightarrow> \<not> p + nat len \<le> length buf \<Longrightarrow> xor_loop k p len i buf = None"
proof (induction k p len i buf rule: xor_loop.induct)
  case (1 k p len i buf)
  show ?case
  proof (cases "nat i mod KEY_SIZE < length k \<and> p + nat i < length buf")
    case False
    then show ?thesis using "1.prems"(2) by (subst xor_loop.simps) auto
  next
    case True
    let ?b = "buf[p + nat i := crypt_byte (k ! (nat i mod KEY_SIZE)) (buf ! (p + nat i))]"
    have "i + 1 < len"
    proof (rule ccontr)
      assume "\<not> i + 1 < len"
      then have "len = i + 1" using "1.prems"(2) by simp
      moreover have "nat (i + 1) = Suc (nat i)" using "1.prems"(1) by simp
      ultimately have "p + nat len \<le> length buf" using True by simp
      then show False using "1.prems"(3) by simp
    qed
    moreover have "\<not> p + nat len \<le> length ?b" using "1.prems"(3) by simp
    ultimately have "xor_loop k p len (i + 1) ?b = None"
      using "1.IH" [OF "1.prems"(2) True] "1.prems"(1) by simp
    then show ?thesis using True "1.prems"(2) by (subst xor_loop.simps) simp
  qed
qed

lemma xor_crypt_cases:
  assumes "KEY_SIZE \<le> length k"
  shows "xor_crypt k buf p len =
           (if len \<le> 0 \<or> p + nat len \<le> length buf
            then Some (crypt_region k p (nat len) buf) else None)"
proof (cases "len \<le> 0")
  case True
  then show ?thesis by (simp add: xor_crypt_def xor_loop_done)
next
  case pos: False
  show ?thesis
  proof (cases "p + nat len \<le> length buf")
    case True
    then show ?thesis using assms by (simp add: xor_crypt_region)
  next
    case False
    then have "xor_loop k p len 0 buf = None"
      using pos by (intro xor_loop_outside) simp_all
    then show ?thesis using False pos by (simp add: xor_crypt_def)
  qed
qed

lemma crypt_region_ORIG_KEY: "crypt_region ORIG_KEY p n buf = buf"
proof (rule nth_equalityI)
  show "length (crypt_region ORIG_KEY p n buf) = length buf" by simp
next
  fix j assume "j < length (crypt_region ORIG_KEY p n buf)"
  then have j: "j < length buf" by simp
  have "ORIG_KEY ! (m mod KEY_SIZE) = 1" for m
  proof -
    have "m mod 8 < 8" by simp
    then have "m mod 8 \<in> {0, 1, 2, 3, 4, 5, 6, 7}" by auto
    then show ?thesis by (auto simp: ORIG_KEY_def KEY_SIZE_def)
  qed
  then show "crypt_region ORIG_KEY p n buf ! j = buf ! j"
    using j by (simp add: nth_crypt_region crypt_byte_one)
qed

lemma xor_crypt_ORIG_KEY:
  "xor_crypt ORIG_KEY buf p len = (if len \<le> 0 \<or> p + nat len \<le> length buf then Some buf else None)"
proof -
  have "KEY_SIZE \<le> length ORIG_KEY" by (simp add: KEY_SIZE_def ORIG_KEY_def)
  then show ?thesis by (simp add: xor_crypt_cases crypt_region_ORIG_KEY)
qed

lemma xor_crypt_ORIG_KEY_Some: "xor_crypt ORIG_KEY buf p len = Some b \<Longrightarrow> b = buf"
  by (simp add: xor_crypt_ORIG_KEY split: if_splits)

lemma decrypt_runtime_section_ORIG_KEY:
  "decrypt_runtime_section L writable base file_data ORIG_KEY section_name m = Some m' \<Longrightarrow> m' = m"
  by (auto simp: decrypt_runtime_section_def xor_crypt_file_eq
           split: option.splits if_splits Option.bind_splits
           dest: xor_crypt_ORIG_KEY_Some)

lemma decrypt_runtime_loop_ORIG_KEY:
  "decrypt_runtime_loop L writable base file_data ORIG_KEY names m = Some m' \<Longrightarrow> m' = m"
proof (induction names arbitrary: m)
  case Nil
  then show ?case by simp
next
  case (Cons section_name rest)
  then obtain m1 where
    1: "decrypt_runtime_section L writable base file_data ORIG_KEY section_name m = Some m1"
    and 2: "decrypt_runtime_loop L writable base file_data ORIG_KEY rest m1 = Some m'"
    by (auto simp: Option.bind_eq_Some_conv)
  from 1 have "m1 = m" by (rule decrypt_runtime_section_ORIG_KEY)
  with 2 Cons.IH show ?case by simp
qed

lemma decrypt_runtime_sections_ORIG_KEY:
  assumes "file_key st = ORIG_KEY" and "decrypt_runtime_sections L writable base exe st = Some st'"
  shows "st' = st"
proof (cases exe)
  case None
  then show ?thesis using assms(2) by (simp add: decrypt_runtime_sections_def)
next
  case (Some file_data)
  then obtain m where lp: "decrypt_runtime_loop L writable base file_data ORIG_KEY
      [''.data'', ''.rodata'', ''.bss''] (mem st) = Some m" and st': "st' = st\<lparr>mem := m\<rparr>"
    using assms by (auto simp: decrypt_runtime_sections_def)
  from lp have "m = mem st" by (rule decrypt_runtime_loop_ORIG_KEY)
  then show ?thesis using st' by simp
qed

lemma decrypt_runtime_section_returns:
  assumes "runtime_section_wf L writable base file_data m section_name"
  shows "decrypt_runtime_section L writable base file_data ORIG_KEY section_name m = Some m"
proof (cases "get_section L file_data section_name")
  case None
  then show ?thesis using assms by (simp add: runtime_section_wf_def)
next
  case found: (Some sec)
  show ?thesis
  proof (cases sec)
    case None
    then show ?thesis using found by (simp add: decrypt_runtime_section_def)
  next
    case (Some h)
    then obtain sz where sz: "rd (decode L) file_data h (sh_size L) = Some sz"
      using assms found by (auto simp: runtime_section_wf_def split: option.splits)
    show ?thesis
    proof (cases "sz = 0")
      case True
      then show ?thesis using found Some sz by (simp add: decrypt_runtime_section_def)
    next
      case False
      then obtain addr where addr: "rd (decode L) file_data h (sh_addr L) = Some addr"
        "addr = 0 \<or> to_int sz \<le> 0 \<or>
         (writable section_name \<and> base \<le> addr \<and> addr - base + nat (to_int sz) \<le> length m)"
        using assms found Some sz by (auto simp: runtime_section_wf_def split: option.splits)
      show ?thesis
        using found Some sz False addr
        by (auto simp: decrypt_runtime_section_def xor_crypt_file_eq xor_crypt_ORIG_KEY)
    qed
  qed
qed

lemma decrypt_runtime_sections_returns:
  assumes "file_key st = ORIG_KEY"
    and "runtime_section_wf L writable base file_data (mem st) ''.data''"
    and "runtime_section_wf L writable base file_data (mem st) ''.rodata''"
    and "runtime_section_wf L writable base file_data (mem st) ''.bss''"
  shows "decrypt_runtime_sections L writable base (Some file_data) st = Some st"
  using assms by (simp add: decrypt_runtime_sections_def decrypt_runtime_section_returns)

text \<open>
  \<^bold>\<open>C9.\<close> Every key byte of the compiled-in key is 1, and the transform with a key byte
  1 is the exclusive or with 0: it keeps every byte. So each of the three transform
  functions, called with the initial key on a run of bytes inside its buffer, returns
  the buffer unchanged (and is undefined only where the run leaves the buffer); the
  first decryption of \<open>mutate\<close> is such a call of \<open>xor_crypt\<close>. The hook that runs
  before \<open>main\<close>, in a process whose \<open>file_key\<close> is still the initial key, changes no
  byte of the process: whenever it returns, the state after it is the state before it;
  and it does return, when it cannot read the executable, and when each of its three
  sections is absent, empty, or lies in the memory of the process on pages that can be
  written.
\<close>

theorem initial_key_transform_is_identity:
  "(\<forall>i < KEY_SIZE. ORIG_KEY ! i = 1)
   \<and> (\<forall>b. crypt_byte 1 b = b)
   \<and> (\<forall>buf p len. xor_crypt ORIG_KEY buf p len =
         (if len \<le> 0 \<or> p + nat len \<le> length buf then Some buf else None))
   \<and> (\<forall>buf p len. xor_crypt_file ORIG_KEY buf p len =
         (if len \<le> 0 \<or> p + nat len \<le> length buf then Some buf else None))
   \<and> (\<forall>buf p len. xor_crypt_additional buf p len ORIG_KEY =
         (if len \<le> 0 \<or> p + nat len \<le> length buf then Some buf else None))
   \<and> (\<forall>L writable base exe st st'. file_key st = ORIG_KEY \<and>
          decrypt_runtime_sections L writable base exe st = Some st' \<longrightarrow> st' = st)
   \<and> (\<forall>L writable base st. decrypt_runtime_sections L writable base None st = Some st)
   \<and> (\<forall>L writable base file_data st. file_key st = ORIG_KEY \<and>
          runtime_section_wf L writable base file_data (mem st) ''.data'' \<and>
          runtime_section_wf L writable base file_data (mem st) ''.rodata'' \<and>
          runtime_section_wf L writable base file_data (mem st) ''.bss'' \<longrightarrow>
          decrypt_runtime_sections L writable base (Some file_data) st = Some st)"
proof (intro conjI allI impI)
  fix i assume "i < KEY_SIZE"
  then have "i \<in> {0, 1, 2, 3, 4, 5, 6, 7}" by (auto simp: KEY_SIZE_def)
  then show "ORIG_KEY ! i = 1" by (auto simp: ORIG_KEY_def)
next
  fix b show "crypt_byte 1 b = b" by (rule crypt_byte_one)
next
  fix buf p len
  show "xor_crypt ORIG_KEY buf p len =
         (if len \<le> 0 \<or> p + nat len \<le> length buf then Some buf else None)"
    by (rule xor_crypt_ORIG_KEY)
  show "xor_crypt_file ORIG_KEY buf p len =
         (if len \<le> 0 \<or> p + nat len \<le> length buf then Some buf else None)"
    unfolding xor_crypt_file_eq by (rule xor_crypt_ORIG_KEY)
  show "xor_crypt_additional buf p len ORIG_KEY =
         (if len \<le> 0 \<or> p + nat len \<le> length buf then Some buf else None)"
    unfolding xor_crypt_additional_eq by (rule xor_crypt_ORIG_KEY)
next
  fix L writable base exe st st'
  assume "file_key st = ORIG_KEY \<and> decrypt_runtime_sections L writable base exe st = Some st'"
  then show "st' = st" using decrypt_runtime_sections_ORIG_KEY by blast
next
  fix L writable base st
  show "decrypt_runtime_sections L writable base None st = Some st"
    by (simp add: decrypt_runtime_sections_def)
next
  fix L writable base file_data and st :: proc
  assume "file_key st = ORIG_KEY \<and>
          runtime_section_wf L writable base file_data (mem st) ''.data'' \<and>
          runtime_section_wf L writable base file_data (mem st) ''.rodata'' \<and>
          runtime_section_wf L writable base file_data (mem st) ''.bss''"
  then show "decrypt_runtime_sections L writable base (Some file_data) st = Some st"
    using decrypt_runtime_sections_returns by blast
qed

theorem initial_key_transform_is_identity_witness:
  "ORIG_KEY ! 3 = 1
   \<and> crypt_byte 1 0xA7 = 0xA7
   \<and> xor_crypt ORIG_KEY [0xDE, 0xAD, 0xBE, 0xEF] 1 3 = Some [0xDE, 0xAD, 0xBE, 0xEF]
   \<and> xor_crypt ORIG_KEY [0xDE, 0xAD, 0xBE, 0xEF] 2 3 = None
   \<and> xor_crypt_file ORIG_KEY [0xDE, 0xAD, 0xBE, 0xEF] 0 4 = Some [0xDE, 0xAD, 0xBE, 0xEF]
   \<and> xor_crypt_additional [0xDE, 0xAD, 0xBE, 0xEF] 0 4 ORIG_KEY = Some [0xDE, 0xAD, 0xBE, 0xEF]
   \<and> file_key fresh_process = ORIG_KEY
   \<and> get_section elf64 demo_elf ''.data'' = Some (Some 264)
   \<and> rd le_nat demo_elf 264 (sh_addr elf64) = Some 4168
   \<and> rd le_nat demo_elf 264 (sh_size elf64) = Some 16
   \<and> decrypt_runtime_sections elf64 (\<lambda>n. True) 4096 (Some demo_elf) fresh_process
       = Some fresh_process"
proof -
  note c9 = initial_key_transform_is_identity
  have d: "decode elf64 = le_nat" by (simp add: elf64_def)
  have l: "length demo_elf = 520" by (simp add: demo_elf_def)
  have t: "to_int 16 = 16" "to_int 8 = 8" "to_int 4 = 4" by (simp_all add: to_int_def)
  have f: "file_key fresh_process = ORIG_KEY" "mem fresh_process = demo_elf"
    by (simp_all add: fresh_process_def)
  have wf: "runtime_section_wf elf64 (\<lambda>n. True) 4096 demo_elf (mem fresh_process) ''.data''"
    "runtime_section_wf elf64 (\<lambda>n. True) 4096 demo_elf (mem fresh_process) ''.rodata''"
    "runtime_section_wf elf64 (\<lambda>n. True) 4096 demo_elf (mem fresh_process) ''.bss''"
    by (simp_all add: runtime_section_wf_def demo_elf_sections d demo_elf_fields
          demo_elf_addresses t l f)
  have h: "decrypt_runtime_sections elf64 (\<lambda>n. True) 4096 (Some demo_elf) fresh_process
             = Some fresh_process"
    using c9 f(1) wf by blast
  have k: "ORIG_KEY ! 3 = 1" using c9 by (simp add: KEY_SIZE_def)
  show ?thesis
    using c9 k f(1) h demo_elf_sections(2) demo_elf_fields(2) demo_elf_addresses(1) by simp
qed


subsection \<open>Reading headers of an image that has been written\<close>

lemma take_drop_crypt_region_apart:
  assumes "a + l \<le> p \<or> p + n \<le> a"
  shows "take l (drop a (crypt_region k p n buf)) = take l (drop a buf)"
proof (rule nth_equalityI)
  show "length (take l (drop a (crypt_region k p n buf))) = length (take l (drop a buf))"
    by simp
next
  fix i assume "i < length (take l (drop a (crypt_region k p n buf)))"
  then have i: "i < l" "a + i < length buf" by auto
  then have "\<not> (p \<le> a + i \<and> a + i < p + n)" using assms by auto
  then have "crypt_region k p n buf ! (a + i) = buf ! (a + i)"
    using i(2) by (auto simp: nth_crypt_region)
  then show "take l (drop a (crypt_region k p n buf)) ! i = take l (drop a buf) ! i"
    using i by simp
qed

lemma rd_crypt_region_apart:
  assumes "h + f_off f + f_len f \<le> p \<or> p + n \<le> h + f_off f"
  shows "rd dec_f (crypt_region k p n buf) h f = rd dec_f buf h f"
  using take_drop_crypt_region_apart [of "h + f_off f" "f_len f" p n k buf] assms
  by (simp add: rd_def rd_bytes_def)

subsection \<open>\<open>encrypt_file_sections\<close> of the ELF mutator\<close>

lemma encrypt_section_identity:
  assumes "KEY_SIZE \<le> length fk" and "aux_section_wf L data section_name"
  shows "encrypt_section L fk section_name data = Some data"
proof (cases "get_section L data section_name")
  case None
  then show ?thesis using assms(2) by (simp add: aux_section_wf_def)
next
  case found: (Some sec)
  show ?thesis
  proof (cases sec)
    case None
    then show ?thesis using found by (simp add: encrypt_section_def)
  next
    case (Some h)
    note h = found Some
    from assms(2) obtain sz where sz: "rd (decode L) data h (sh_size L) = Some sz"
      using h by (auto simp: aux_section_wf_def split: option.splits)
    show ?thesis
    proof (cases "sz = 0")
      case True
      then show ?thesis using h sz by (simp add: encrypt_section_def)
    next
      case False
      from assms(2) False obtain off where off: "rd (decode L) data h (sh_offset L) = Some off"
        and inb: "off + nat (to_int sz) \<le> length data"
        and apart: "h + f_off (sh_size L) + f_len (sh_size L) \<le> off \<or>
                    off + nat (to_int sz) \<le> h + f_off (sh_size L)"
        using h sz by (auto simp: aux_section_wf_def split: option.splits)
      let ?d1 = "crypt_region fk off (nat (to_int sz)) data"
      have 1: "xor_crypt_file fk data off (to_int sz) = Some ?d1"
        unfolding xor_crypt_file_eq using assms(1) inb by (rule xor_crypt_region)
      have 2: "rd (decode L) ?d1 h (sh_size L) = Some sz"
        using rd_crypt_region_apart [OF apart] sz by simp
      have "xor_crypt_file fk ?d1 off (to_int sz) =
              Some (crypt_region fk off (nat (to_int sz)) ?d1)"
        unfolding xor_crypt_file_eq using assms(1) inb by (intro xor_crypt_region) simp_all
      then have 3: "xor_crypt_file fk ?d1 off (to_int sz) = Some data"
        by (simp add: crypt_region_involution)
      show ?thesis
        using False by (simp add: encrypt_section_def h sz off 1 2 3)
    qed
  qed
qed

lemma encrypt_sections_identity:
  assumes "KEY_SIZE \<le> length fk" and "\<forall>n \<in> set names. aux_section_wf L data n"
  shows "encrypt_sections L fk names data = Some data"
  using assms(2)
proof (induction names)
  case Nil
  then show ?case by simp
next
  case (Cons n names)
  then show ?case using encrypt_section_identity [OF assms(1), of L data n] by simp
qed

text \<open>The image \<open>demo_elf\<close> meets the condition for each of the three section names.\<close>

lemma demo_elf_wf:
  "aux_section_wf elf64 demo_elf ''.data''" "aux_section_wf elf64 demo_elf ''.rodata''"
  "aux_section_wf elf64 demo_elf ''.bss''"
proof -
  have d: "decode elf64 = le_nat" "f_off (sh_size elf64) = 32" "f_len (sh_size elf64) = 8"
    by (simp_all add: elf64_def)
  have l: "length demo_elf = 520" by (simp add: demo_elf_def)
  have t: "to_int 16 = 16" "to_int 8 = 8" "to_int 4 = 4" by (simp_all add: to_int_def)
  show "aux_section_wf elf64 demo_elf ''.data''" "aux_section_wf elf64 demo_elf ''.rodata''"
    "aux_section_wf elf64 demo_elf ''.bss''"
    by (simp_all add: aux_section_wf_def demo_elf_sections d demo_elf_fields l t)
qed

text \<open>
  \<^bold>\<open>C2.\<close> On an image in which each of \<open>.data\<close>, \<open>.rodata\<close> and \<open>.bss\<close> is either
  absent, empty, or lies inside the image apart from the size field of its own section
  header, \<open>encrypt_file_sections\<close> returns the image it was given, byte for byte,
  whatever the file key: for every section it finds with a size that is not zero it
  transforms the same bytes twice with the same key, and the second pass undoes the
  first.
\<close>

theorem encrypt_file_sections_is_identity:
  assumes "KEY_SIZE \<le> length fk"
    and "aux_section_wf L data ''.data''" and "aux_section_wf L data ''.rodata''"
    and "aux_section_wf L data ''.bss''"
  shows "encrypt_file_sections L fk data = Some data
         \<and> encrypt_section L fk ''.data'' data = Some data
         \<and> encrypt_section L fk ''.rodata'' data = Some data
         \<and> encrypt_section L fk ''.bss'' data = Some data"
proof -
  have "encrypt_sections L fk [''.data'', ''.rodata'', ''.bss''] data = Some data"
    using assms by (intro encrypt_sections_identity) simp_all
  then show ?thesis
    using assms by (simp add: encrypt_file_sections_def encrypt_section_identity)
qed

theorem encrypt_file_sections_is_identity_witness:
  "encrypt_file_sections elf64 demo_file_key demo_elf = Some demo_elf
   \<and> get_section elf64 demo_elf ''.data'' = Some (Some 264)
   \<and> rd le_nat demo_elf 264 (sh_offset elf64) = Some 72
   \<and> rd le_nat demo_elf 264 (sh_size elf64) = Some 16
   \<and> map_option (\<lambda>d. d ! 72) (xor_crypt_file demo_file_key demo_elf 72 16) = Some 0x38
   \<and> demo_elf ! 72 = 0x01"
proof -
  have k: "KEY_SIZE \<le> length demo_file_key" by (simp add: KEY_SIZE_def demo_file_key_def)
  have l: "length demo_elf = 520" by (simp add: demo_elf_def)
  have b: "demo_elf ! 72 = 0x01" by (simp add: demo_elf_def)
  have "xor_crypt_file demo_file_key demo_elf 72 16 =
          Some (crypt_region demo_file_key 72 (nat 16) demo_elf)"
    unfolding xor_crypt_file_eq using k by (rule xor_crypt_region) (simp add: l)
  moreover have "crypt_region demo_file_key 72 (nat 16) demo_elf ! 72 = 0x38"
    by (simp add: nth_crypt_region l b) (simp add: demo_file_key_def crypt_byte_def)
  ultimately show ?thesis
    using encrypt_file_sections_is_identity [OF k demo_elf_wf]
      demo_elf_sections(2) demo_elf_fields(1,2) b
    by simp
qed


subsection \<open>A mutator whose image has no section \<open>.poly\<close>\<close>

lemma section_loop_absent:
  assumes "\<forall>j. i \<le> j \<and> j < shnum \<longrightarrow> elf_section_named L data shoff strtab j name = Some False"
  shows "section_loop L data shoff strtab shnum i name = Some None"
  using assms
proof (induction "shnum - i" arbitrary: i)
  case 0
  then show ?case by (subst section_loop.simps) simp
next
  case (Suc m)
  then have lt: "i < shnum" by simp
  then have "elf_section_named L data shoff strtab i name = Some False"
    using Suc.prems by simp
  then obtain nm where nm: "rd (decode L) data (shoff + i * shdr_size L) (sh_name L) = Some nm"
    "strcmp_eq data (strtab + nm) name = Some False"
    by (auto simp: elf_section_named_def Option.bind_eq_Some_conv)
  have "section_loop L data shoff strtab shnum (Suc i) name = Some None"
    using Suc.hyps(1) [of "Suc i"] Suc.hyps(2) Suc.prems by simp
  then show ?case using lt nm by (subst section_loop.simps) simp
qed

lemma elf_lacks_get_section:
  assumes "elf_lacks L data name"
  shows "get_section L data name = Some None"
proof -
  from assms obtain shoff shstrndx strtab shnum where r:
    "rd (decode L) data 0 (e_shoff L) = Some shoff"
    "rd (decode L) data 0 (e_shstrndx L) = Some shstrndx"
    "rd (decode L) data (shoff + shstrndx * shdr_size L) (sh_offset L) = Some strtab"
    "rd (decode L) data 0 (e_shnum L) = Some shnum"
    "list_all (\<lambda>i. elf_section_named L data shoff strtab i name = Some False) [0..<shnum]"
    by (auto simp: elf_lacks_def split: option.splits)
  from r(5) have "\<forall>j. 0 \<le> j \<and> j < shnum \<longrightarrow>
      elf_section_named L data shoff strtab j name = Some False"
    by (simp add: list_all_iff)
  then have "section_loop L data shoff strtab shnum 0 name = Some None"
    by (rule section_loop_absent)
  then show ?thesis by (simp add: get_section_def r(1,2,3,4))
qed

lemma find_loop_absent:
  assumes "\<forall>j. i \<le> j \<and> j < num \<longrightarrow>
             (case rd_bytes data (sections + j * section_header_size L) (sec_name L) of
                None \<Rightarrow> False | Some nm \<Rightarrow> \<not> strncmp_eq nm name)"
  shows "find_loop L data sections num i name = Some None"
  using assms
proof (induction "num - i" arbitrary: i)
  case 0
  then show ?case by (subst find_loop.simps) simp
next
  case (Suc m)
  then have lt: "i < num" by simp
  then obtain nm where nm:
    "rd_bytes data (sections + i * section_header_size L) (sec_name L) = Some nm"
    "\<not> strncmp_eq nm name"
    using Suc.prems [rule_format, of i] by (auto split: option.splits)
  have "find_loop L data sections num (Suc i) name = Some None"
    using Suc.hyps(1) [of "Suc i"] Suc.hyps(2) Suc.prems by simp
  then show ?case using lt nm by (subst find_loop.simps) simp
qed

lemma find_loop_defined:
  assumes "\<forall>j. i \<le> j \<and> j < num \<longrightarrow>
             rd_bytes data (sections + j * section_header_size L) (sec_name L) \<noteq> None"
  shows "\<exists>r. find_loop L data sections num i name = Some r"
  using assms
proof (induction "num - i" arbitrary: i)
  case 0
  then show ?case by (subst find_loop.simps) simp
next
  case (Suc m)
  then have lt: "i < num" by simp
  then obtain nm where nm:
    "rd_bytes data (sections + i * section_header_size L) (sec_name L) = Some nm"
    using Suc.prems [rule_format, of i] by auto
  have "\<exists>r. find_loop L data sections num (Suc i) name = Some r"
  proof (rule Suc.hyps(1))
    show "m = num - Suc i" using Suc.hyps(2) by simp
    show "\<forall>j. Suc i \<le> j \<and> j < num \<longrightarrow>
             rd_bytes data (sections + j * section_header_size L) (sec_name L) \<noteq> None"
      using Suc.prems by simp
  qed
  then show ?case using lt nm by (subst find_loop.simps) simp
qed

lemma pe_lacks_find_section:
  assumes "pe_lacks L data name"
  shows "find_section L data name = Some None" and "\<exists>r. find_section L data other = Some r"
proof -
  from assms obtain lfanew opt num where r:
    "rd (pe_decode L) data 0 (dos_e_magic L) = Some (dos_signature L)"
    "rd (pe_decode L) data 0 (dos_e_lfanew L) = Some lfanew" "0 \<le> to_int lfanew"
    "rd (pe_decode L) data (nat (to_int lfanew)) (nt_signature_fld L) = Some (nt_signature L)"
    "rd (pe_decode L) data (nat (to_int lfanew)) (nt_size_of_optional_header L) = Some opt"
    "rd (pe_decode L) data (nat (to_int lfanew)) (nt_number_of_sections L) = Some num"
    "list_all (\<lambda>i. case rd_bytes data (nat (to_int lfanew) + nt_optional_header_at L + opt +
                                         i * section_header_size L) (sec_name L) of
                      None \<Rightarrow> False | Some nm \<Rightarrow> \<not> strncmp_eq nm name) [0..<num]"
    by (auto simp: pe_lacks_def split: option.splits)
  let ?s = "nat (to_int lfanew) + nt_optional_header_at L + opt"
  from r(7) have a: "\<forall>j. 0 \<le> j \<and> j < num \<longrightarrow>
      (case rd_bytes data (?s + j * section_header_size L) (sec_name L) of
         None \<Rightarrow> False | Some nm \<Rightarrow> \<not> strncmp_eq nm name)"
    by (simp add: list_all_iff)
  then have "find_loop L data ?s num 0 name = Some None" by (rule find_loop_absent)
  then show "find_section L data name = Some None"
    using r(3) by (simp add: find_section_def r(1,2,4,5,6))
  from a have "\<forall>j. 0 \<le> j \<and> j < num \<longrightarrow>
      rd_bytes data (?s + j * section_header_size L) (sec_name L) \<noteq> None"
    by (auto split: option.splits)
  then have "\<exists>r'. find_loop L data ?s num 0 other = Some r'"
    by (rule find_loop_defined)
  then show "\<exists>r. find_section L data other = Some r"
    using r(3) by (simp add: find_section_def r(1,2,4,5,6))
qed

lemma mutate_executable_without_poly:
  assumes "disk st exe_path = Some img" and "pe_lacks L img ''.poly''"
  shows "\<exists>msg. mutate_executable L os exe_path st = Some (die_pe (last_error os) msg st)"
    and "create_file_ok os \<Longrightarrow> get_file_size_ok os \<Longrightarrow> create_mapping_ok os \<Longrightarrow>
         map_view_ok os \<Longrightarrow> find_section L img ''.data'' = Some (Some dh) \<Longrightarrow>
         mutate_executable L os exe_path st =
           Some (die_pe (last_error os) ''Could not find polymorphic section'' st)"
proof -
  have p: "find_section L img ''.poly'' = Some None"
    using assms(2) by (rule pe_lacks_find_section(1))
  obtain r where d: "find_section L img ''.data'' = Some r"
    using pe_lacks_find_section(2) [OF assms(2)] by blast
  show "\<exists>msg. mutate_executable L os exe_path st = Some (die_pe (last_error os) msg st)"
    by (cases r) (auto simp: mutate_executable_def assms(1) p d)
  show "create_file_ok os \<Longrightarrow> get_file_size_ok os \<Longrightarrow> create_mapping_ok os \<Longrightarrow>
         map_view_ok os \<Longrightarrow> find_section L img ''.data'' = Some (Some dh) \<Longrightarrow>
         mutate_executable L os exe_path st =
           Some (die_pe (last_error os) ''Could not find polymorphic section'' st)"
    by (simp add: mutate_executable_def assms(1) p)
qed

text \<open>
  \<^bold>\<open>C5.\<close> When the image has no section \<open>.poly\<close>, the mutation routine of either
  program ends the process with \<^verbatim>\<open>exit(EXIT_FAILURE)\<close>, a status that is not zero,
  after an error message, and the files on disk are what they were: the ELF program's
  \<open>mutate\<close> on the buffer it was given, with the message
  \<open>ERROR: Could not find polymorphic section\<close>; the PE program's \<open>mutate_executable\<close> on
  the file it maps, with one of its messages and the last error code, and with the
  message \<open>ERROR: Could not find polymorphic section\<close> when the file could be mapped and
  has a section \<open>.data\<close>. Neither has changed the key or the memory of the process.
\<close>

theorem missing_poly_section_is_fatal:
  "(\<forall>L os data filename filesize st. elf_lacks L data ''.poly'' \<longrightarrow>
      (\<exists>st'. mutate L os data filename filesize st = Some (Exited EXIT_FAILURE st') \<and>
         disk st' = disk st \<and> mem st' = mem st \<and> key st' = key st \<and>
         stderr st' = stderr st @ [''ERROR: Could not find polymorphic section\<newline>'']))
   \<and> (\<forall>L os exe_path img st. disk st exe_path = Some img \<and> pe_lacks L img ''.poly'' \<longrightarrow>
        (\<exists>st' msg. mutate_executable L os exe_path st = Some (Exited EXIT_FAILURE st') \<and>
           disk st' = disk st \<and> mem st' = mem st \<and> key st' = key st \<and>
           stderr st' = stderr st @ [''ERROR: '' @ msg @ ''\<newline>'',
                                     ''Last error: '' @ dec (last_error os) @ ''\<newline>'']))
   \<and> (\<forall>L os exe_path img st dh. disk st exe_path = Some img \<and> pe_lacks L img ''.poly'' \<and>
        create_file_ok os \<and> get_file_size_ok os \<and> create_mapping_ok os \<and> map_view_ok os \<and>
        find_section L img ''.data'' = Some (Some dh) \<longrightarrow>
        (\<exists>st'. mutate_executable L os exe_path st = Some (Exited EXIT_FAILURE st') \<and>
           disk st' = disk st \<and>
           stderr st' = stderr st @ [''ERROR: Could not find polymorphic section\<newline>'',
                                     ''Last error: '' @ dec (last_error os) @ ''\<newline>'']))
   \<and> EXIT_FAILURE \<noteq> 0"
proof (intro conjI allI impI)
  fix L os data filename filesize and st :: proc
  assume "elf_lacks L data ''.poly''"
  then have "get_section L data ''.poly'' = Some None" by (rule elf_lacks_get_section)
  then have "mutate L os data filename filesize st =
      Some (die ''Could not find polymorphic section\<newline>'' st)"
    by (simp add: mutate_def)
  then show "\<exists>st'. mutate L os data filename filesize st = Some (Exited EXIT_FAILURE st') \<and>
         disk st' = disk st \<and> mem st' = mem st \<and> key st' = key st \<and>
         stderr st' = stderr st @ [''ERROR: Could not find polymorphic section\<newline>'']"
    by (simp add: die_def)
next
  fix L exe_path img and os :: pe_os and st :: proc
  assume "disk st exe_path = Some img \<and> pe_lacks L img ''.poly''"
  then obtain msg where
    "mutate_executable L os exe_path st = Some (die_pe (last_error os) msg st)"
    using mutate_executable_without_poly(1) by blast
  then show "\<exists>st' msg. mutate_executable L os exe_path st = Some (Exited EXIT_FAILURE st') \<and>
           disk st' = disk st \<and> mem st' = mem st \<and> key st' = key st \<and>
           stderr st' = stderr st @ [''ERROR: '' @ msg @ ''\<newline>'',
                                     ''Last error: '' @ dec (last_error os) @ ''\<newline>'']"
    by (auto simp: die_pe_def)
next
  fix L exe_path img dh and os :: pe_os and st :: proc
  assume "disk st exe_path = Some img \<and> pe_lacks L img ''.poly'' \<and>
        create_file_ok os \<and> get_file_size_ok os \<and> create_mapping_ok os \<and> map_view_ok os \<and>
        find_section L img ''.data'' = Some (Some dh)"
  then have "mutate_executable L os exe_path st =
      Some (die_pe (last_error os) ''Could not find polymorphic section'' st)"
    using mutate_executable_without_poly(2) by blast
  then show "\<exists>st'. mutate_executable L os exe_path st = Some (Exited EXIT_FAILURE st') \<and>
           disk st' = disk st \<and>
           stderr st' = stderr st @ [''ERROR: Could not find polymorphic section\<newline>'',
                                     ''Last error: '' @ dec (last_error os) @ ''\<newline>'']"
    by (simp add: die_pe_def)
next
  show "EXIT_FAILURE \<noteq> 0" by (simp add: EXIT_FAILURE_def)
qed

lemma demo_elf_no_poly_lacks: "elf_lacks elf64 demo_elf_no_poly ''.poly''"
  by (simp add: elf_lacks_def elf_section_named_def rd_def rd_bytes_def elf64_def
        demo_elf_no_poly_def le_nat_def upt_rec)

lemma demo_pe_no_poly_lacks: "pe_lacks pe_image demo_pe_no_poly ''.poly''"
  by (simp add: pe_lacks_def rd_def rd_bytes_def pe_image_def demo_pe_no_poly_def le_nat_def
        to_int_def upt_rec)

lemma demo_pe_no_poly_data: "find_section pe_image demo_pe_no_poly ''.data'' = Some (Some 328)"
  by (simp add: find_section_def rd_def rd_bytes_def pe_image_def demo_pe_no_poly_def le_nat_def
        to_int_def find_loop.simps)

theorem missing_poly_section_is_fatal_witness:
  "elf_lacks elf64 demo_elf_no_poly ''.poly''
   \<and> mutate elf64 calm_elf_os demo_elf_no_poly ''./demo'' 520 plain_process =
       Some (Exited 1 (plain_process\<lparr>stderr := [''ERROR: Could not find polymorphic section\<newline>'']\<rparr>))
   \<and> disk plain_process ''./demo'' = Some demo_elf_no_poly
   \<and> disk plain_pe_process ''demo.exe'' = Some demo_pe_no_poly
   \<and> pe_lacks pe_image demo_pe_no_poly ''.poly''
   \<and> find_section pe_image demo_pe_no_poly ''.data'' = Some (Some 328)
   \<and> mutate_executable pe_image calm_pe_os ''demo.exe'' plain_pe_process =
       Some (Exited 1 (plain_pe_process
               \<lparr>stderr := [''ERROR: Could not find polymorphic section\<newline>'',
                            ''Last error: 0\<newline>'']\<rparr>))"
proof -
  note T = missing_poly_section_is_fatal
  have e: "stderr plain_process = []" "disk plain_process ''./demo'' = Some demo_elf_no_poly"
    "stderr plain_pe_process = []" "disk plain_pe_process ''demo.exe'' = Some demo_pe_no_poly"
    by (simp_all add: plain_process_def plain_pe_process_def)
  have os: "create_file_ok calm_pe_os" "get_file_size_ok calm_pe_os" "create_mapping_ok calm_pe_os"
    "map_view_ok calm_pe_os" "last_error calm_pe_os = 0"
    by (simp_all add: calm_pe_os_def)
  have d0: "dec 0 = ''0''" by (simp add: dec.simps digit_char_def)
  from T demo_elf_no_poly_lacks obtain st' where 1:
    "mutate elf64 calm_elf_os demo_elf_no_poly ''./demo'' 520 plain_process =
       Some (Exited EXIT_FAILURE st')"
    by blast
  then have "st' = plain_process\<lparr>stderr := [''ERROR: Could not find polymorphic section\<newline>'']\<rparr>"
    using elf_lacks_get_section [OF demo_elf_no_poly_lacks]
    by (simp add: mutate_def die_def e)
  with 1 have a: "mutate elf64 calm_elf_os demo_elf_no_poly ''./demo'' 520 plain_process =
       Some (Exited 1 (plain_process\<lparr>stderr := [''ERROR: Could not find polymorphic section\<newline>'']\<rparr>))"
    by (simp add: EXIT_FAILURE_def)
  from T e(4) demo_pe_no_poly_lacks os(1,2,3,4) demo_pe_no_poly_data obtain st'' where 2:
    "mutate_executable pe_image calm_pe_os ''demo.exe'' plain_pe_process =
       Some (Exited EXIT_FAILURE st'')"
    by blast
  then have "st'' = plain_pe_process
               \<lparr>stderr := [''ERROR: Could not find polymorphic section\<newline>'',
                            ''Last error: 0\<newline>'']\<rparr>"
    using mutate_executable_without_poly(2) [OF e(4) demo_pe_no_poly_lacks os(1,2,3,4) demo_pe_no_poly_data]
    by (simp add: die_pe_def e os d0)
  with 2 have b: "mutate_executable pe_image calm_pe_os ''demo.exe'' plain_pe_process =
       Some (Exited 1 (plain_pe_process
               \<lparr>stderr := [''ERROR: Could not find polymorphic section\<newline>'',
                            ''Last error: 0\<newline>'']\<rparr>))"
    by (simp add: EXIT_FAILURE_def)
  show ?thesis
    using demo_elf_no_poly_lacks a e(2,4) demo_pe_no_poly_lacks demo_pe_no_poly_data b
    by (intro conjI)
qed


subsection \<open>Reading the headers of a PE image whose sections have been rewritten\<close>

lemma take_drop_prefix: "q + l \<le> H \<Longrightarrow> take l (drop q (take H xs)) = take l (drop q xs)"
  by (simp add: drop_take min_def)

lemma rd_bytes_prefix:
  assumes "rd_bytes (take H d) p f = Some bs" and "take H d' = take H d"
  shows "rd_bytes d' p f = Some bs"
proof -
  let ?q = "p + f_off f" and ?l = "f_len f"
  from assms(1) have b: "?q + ?l \<le> length (take H d)" and bs: "bs = take ?l (drop ?q (take H d))"
    by (auto simp: rd_bytes_def split: if_splits)
  have "length (take H d') = length (take H d)" using assms(2) by simp
  then have b': "?q + ?l \<le> length d'" "?q + ?l \<le> H" using b by auto
  have "take ?l (drop ?q d') = take ?l (drop ?q (take H d'))"
    using b'(2) by (simp only: take_drop_prefix)
  also have "\<dots> = bs" by (simp only: assms(2) bs)
  finally show ?thesis using b'(1) by (simp add: rd_bytes_def)
qed

lemma rd_prefix:
  assumes "rd f0 (take H d) p f = Some v" and "take H d' = take H d"
  shows "rd f0 d' p f = Some v"
proof -
  from assms(1) obtain bs where "rd_bytes (take H d) p f = Some bs" "v = f0 bs"
    by (auto simp: rd_def)
  then show ?thesis using rd_bytes_prefix [OF _ assms(2)] by (simp add: rd_def)
qed

lemma find_loop_prefix:
  assumes "take H d' = take H d"
  shows "find_loop L (take H d) s n i name = Some r \<Longrightarrow> find_loop L d' s n i name = Some r"
proof (induction "n - i" arbitrary: i)
  case 0
  then have ge: "\<not> i < n" by simp
  then have "r = None" using "0.prems" by (subst (asm) find_loop.simps) simp
  then show ?case using ge by (subst find_loop.simps) simp
next
  case (Suc m)
  then have lt: "i < n" by simp
  from Suc.prems lt obtain nm where
    nm: "rd_bytes (take H d) (s + i * section_header_size L) (sec_name L) = Some nm"
    and rest: "if strncmp_eq nm name then r = Some (s + i * section_header_size L)
               else find_loop L (take H d) s n (i + 1) name = Some r"
    by (subst (asm) find_loop.simps) (auto split: option.splits if_splits)
  have nm': "rd_bytes d' (s + i * section_header_size L) (sec_name L) = Some nm"
    using nm assms by (rule rd_bytes_prefix)
  show ?case
  proof (cases "strncmp_eq nm name")
    case True
    then show ?thesis using rest lt nm' by (subst find_loop.simps) simp
  next
    case False
    then have "find_loop L (take H d) s n (Suc i) name = Some r" using rest by simp
    moreover have "m = n - Suc i" using Suc.hyps(2) by simp
    ultimately have "find_loop L d' s n (Suc i) name = Some r" using Suc.hyps(1) by blast
    then show ?thesis using False lt nm' by (subst find_loop.simps) simp
  qed
qed

lemma find_section_prefix:
  assumes "find_section L (take H d) name = Some r" and "take H d' = take H d"
  shows "find_section L d' name = Some r"
proof -
  note P = rd_prefix [OF _ assms(2)]
  from assms(1) obtain magic where m: "rd (pe_decode L) (take H d) 0 (dos_e_magic L) = Some magic"
    by (auto simp: find_section_def Option.bind_eq_Some_conv)
  show ?thesis
  proof (cases "magic = dos_signature L")
    case False
    then have "r = None" using assms(1) m by (simp add: find_section_def)
    then show ?thesis using False P [OF m] by (simp add: find_section_def)
  next
    case magic: True
    from assms(1) m magic obtain lfanew where
      l: "rd (pe_decode L) (take H d) 0 (dos_e_lfanew L) = Some lfanew"
      by (auto simp: find_section_def Option.bind_eq_Some_conv)
    have pos: "\<not> to_int lfanew < 0"
      using assms(1) m magic l by (auto simp: find_section_def split: if_splits)
    from assms(1) m magic l pos obtain sig where
      s: "rd (pe_decode L) (take H d) (nat (to_int lfanew)) (nt_signature_fld L) = Some sig"
      by (auto simp: find_section_def Option.bind_eq_Some_conv)
    show ?thesis
    proof (cases "sig = nt_signature L")
      case False
      then have "r = None" using assms(1) m magic l pos s by (simp add: find_section_def)
      then show ?thesis
        using False magic pos P [OF m] P [OF l] P [OF s] by (simp add: find_section_def)
    next
      case sig: True
      from assms(1) m magic l pos s sig obtain opt num where
        o: "rd (pe_decode L) (take H d) (nat (to_int lfanew)) (nt_size_of_optional_header L) = Some opt"
        and n: "rd (pe_decode L) (take H d) (nat (to_int lfanew)) (nt_number_of_sections L) = Some num"
        and f: "find_loop L (take H d) (nat (to_int lfanew) + nt_optional_header_at L + opt)
                  num 0 name = Some r"
        by (auto simp: find_section_def Option.bind_eq_Some_conv)
      have "find_loop L d' (nat (to_int lfanew) + nt_optional_header_at L + opt) num 0 name = Some r"
        using f by (rule find_loop_prefix [OF assms(2)])
      then show ?thesis
        using magic sig pos P [OF m] P [OF l] P [OF s] P [OF o] P [OF n]
        by (simp add: find_section_def)
    qed
  qed
qed

lemma to_int_small: "n < 2 ^ 31 \<Longrightarrow> to_int n = int n"
proof -
  assume a: "n < 2 ^ 31"
  have "to_int n = signed_take_bit 31 (int n)"
    by (simp add: to_int_def signed_of_nat)
  also have "\<dots> = int n"
  proof (rule signed_take_bit_int_eq_self)
    show "- (2 ^ 31) \<le> int n" by simp
    have "int n < int (2 ^ 31)" using a by (simp only: of_nat_less_iff)
    then show "int n < 2 ^ 31" by simp
  qed
  finally show ?thesis .
qed

subsection \<open>Regions of a buffer\<close>

lemma take_crypt_region_below: "H \<le> p \<Longrightarrow> take H (crypt_region k p n buf) = take H buf"
  by (rule nth_equalityI) (simp_all add: nth_crypt_region)

lemma crypt_region_key_cong:
  assumes "take KEY_SIZE k = take KEY_SIZE k'"
  shows "crypt_region k p n buf = crypt_region k' p n buf"
proof -
  have "k ! (i mod KEY_SIZE) = k' ! (i mod KEY_SIZE)" for i
  proof -
    have lt: "i mod KEY_SIZE < KEY_SIZE" by (simp add: KEY_SIZE_def)
    have "k ! (i mod KEY_SIZE) = take KEY_SIZE k ! (i mod KEY_SIZE)" using lt by simp
    also have "\<dots> = take KEY_SIZE k' ! (i mod KEY_SIZE)" by (simp only: assms)
    also have "\<dots> = k' ! (i mod KEY_SIZE)" using lt by simp
    finally show ?thesis .
  qed
  then show ?thesis by (simp add: crypt_region_def)
qed

lemma crypt_region_region_cong:
  assumes "length a = length b" and "take n (drop p a) = take n (drop p b)"
  shows "take n (drop p (crypt_region k p n a)) = take n (drop p (crypt_region k p n b))"
proof (rule nth_equalityI)
  show "length (take n (drop p (crypt_region k p n a))) =
        length (take n (drop p (crypt_region k p n b)))"
    using assms(1) by simp
next
  fix i assume "i < length (take n (drop p (crypt_region k p n a)))"
  then have i: "i < n" "p + i < length a" "p + i < length b" using assms(1) by auto
  have "a ! (p + i) = take n (drop p a) ! i" using i by simp
  also have "\<dots> = take n (drop p b) ! i" by (simp only: assms(2))
  also have "\<dots> = b ! (p + i)" using i by simp
  finally have "a ! (p + i) = b ! (p + i)" .
  then show "take n (drop p (crypt_region k p n a)) ! i =
             take n (drop p (crypt_region k p n b)) ! i"
    using i by (simp add: nth_crypt_region)
qed

lemma memcpy_to_length: "memcpy_to dst p src n = Some r \<Longrightarrow> length r = length dst"
  by (auto simp: memcpy_to_def split: if_splits)

lemma memcpy_to_below: "memcpy_to dst p src n = Some r \<Longrightarrow> H \<le> p \<Longrightarrow> take H r = take H dst"
  by (auto simp: memcpy_to_def split: if_splits)

lemma memcpy_to_region: "memcpy_to dst p src n = Some r \<Longrightarrow> take n (drop p r) = take n src"
  by (auto simp: memcpy_to_def split: if_splits)

lemma memcpy_to_nth:
  assumes "memcpy_to dst p src n = Some r" and "j < length dst" and "j < p \<or> p + n \<le> j"
  shows "r ! j = dst ! j"
proof -
  from assms(1) have b: "p + n \<le> length dst" "n \<le> length src"
    and r: "r = take p dst @ take n src @ drop (p + n) dst"
    by (auto simp: memcpy_to_def split: if_splits)
  from assms(3) show ?thesis
  proof
    assume "j < p"
    then show ?thesis using b r by (simp add: nth_append)
  next
    assume ge: "p + n \<le> j"
    have lAB: "length (take p dst @ take n src) = p + n" using b by simp
    have "r ! j = ((take p dst @ take n src) @ drop (p + n) dst) ! j" by (simp add: r)
    also have "\<dots> = drop (p + n) dst ! (j - (p + n))"
      using ge by (simp only: nth_append lAB) simp
    finally have "r ! j = drop (p + n) dst ! (j - (p + n))" .
    also have "\<dots> = dst ! j" using ge assms(2) by simp
    finally show ?thesis .
  qed
qed

lemma memcpy_to_apart:
  assumes "memcpy_to dst p src n = Some r" and "a + l \<le> p \<or> p + n \<le> a"
  shows "take l (drop a r) = take l (drop a dst)"
proof (rule nth_equalityI)
  show "length (take l (drop a r)) = length (take l (drop a dst))"
    using memcpy_to_length [OF assms(1)] by simp
next
  fix i assume "i < length (take l (drop a r))"
  then have i: "i < l" "a + i < length dst" using memcpy_to_length [OF assms(1)] by auto
  then have "a + i < p \<or> p + n \<le> a + i" using assms(2) by auto
  then have "r ! (a + i) = dst ! (a + i)" using assms(1) i(2) by (simp add: memcpy_to_nth)
  then show "take l (drop a r) ! i = take l (drop a dst) ! i"
    using i memcpy_to_length [OF assms(1)] by simp
qed

subsection \<open>One pass of \<open>mutate_executable\<close>\<close>

lemma encrypt_file_sections_pe_apart:
  assumes "take H m3 = take H img" and "length m3 = length img"
    and "pe_rdata_apart L H img koff poff psz" and "KEY_SIZE \<le> length fk"
  shows "\<exists>m4. encrypt_file_sections_pe L m3 fk = Some m4 \<and> length m4 = length m3 \<and>
           take H m4 = take H m3 \<and>
           take KEY_SIZE (drop koff m4) = take KEY_SIZE (drop koff m3) \<and>
           take psz (drop poff m4) = take psz (drop poff m3)"
proof (cases "find_section L (take H img) ''.rdata''")
  case None
  then show ?thesis using assms(3) by (simp add: pe_rdata_apart_def)
next
  case found: (Some sec)
  have fs: "find_section L m3 ''.rdata'' = Some sec"
    using found assms(1) by (rule find_section_prefix)
  show ?thesis
  proof (cases sec)
    case None
    then show ?thesis using fs by (simp add: encrypt_file_sections_pe_def)
  next
    case (Some rh)
    then obtain rsz where rsz: "rd (pe_decode L) (take H img) rh (sec_size_of_raw_data L) = Some rsz"
      using assms(3) found by (auto simp: pe_rdata_apart_def split: option.splits)
    have rsz': "rd (pe_decode L) m3 rh (sec_size_of_raw_data L) = Some rsz"
      using rsz assms(1) by (rule rd_prefix)
    show ?thesis
    proof (cases "rsz = 0")
      case True
      then show ?thesis using fs Some rsz' by (simp add: encrypt_file_sections_pe_def)
    next
      case False
      then obtain roff where
        roff: "rd (pe_decode L) (take H img) rh (sec_pointer_to_raw_data L) = Some roff"
        and c: "to_int rsz \<le> 0 \<or>
                (H \<le> roff \<and> roff + nat (to_int rsz) \<le> length img \<and>
                 (roff + nat (to_int rsz) \<le> koff \<or> koff + KEY_SIZE \<le> roff) \<and>
                 (roff + nat (to_int rsz) \<le> poff \<or> poff + psz \<le> roff))"
        using assms(3) found Some rsz by (auto simp: pe_rdata_apart_def split: option.splits)
      have roff': "rd (pe_decode L) m3 rh (sec_pointer_to_raw_data L) = Some roff"
        using roff assms(1) by (rule rd_prefix)
      have e: "encrypt_file_sections_pe L m3 fk = xor_crypt fk m3 roff (to_int rsz)"
        using fs Some rsz' roff' False
        by (simp add: encrypt_file_sections_pe_def xor_crypt_additional_eq)
      from c show ?thesis
      proof
        assume "to_int rsz \<le> 0"
        then have "xor_crypt fk m3 roff (to_int rsz) = Some m3"
          by (simp add: xor_crypt_def xor_loop_done)
        then show ?thesis using e by simp
      next
        assume a: "H \<le> roff \<and> roff + nat (to_int rsz) \<le> length img \<and>
                 (roff + nat (to_int rsz) \<le> koff \<or> koff + KEY_SIZE \<le> roff) \<and>
                 (roff + nat (to_int rsz) \<le> poff \<or> poff + psz \<le> roff)"
        let ?m4 = "crypt_region fk roff (nat (to_int rsz)) m3"
        have "xor_crypt fk m3 roff (to_int rsz) = Some ?m4"
          using assms(4) a assms(2) by (simp add: xor_crypt_region)
        moreover have "take H ?m4 = take H m3" using a by (simp add: take_crypt_region_below)
        moreover have "take KEY_SIZE (drop koff ?m4) = take KEY_SIZE (drop koff m3)"
          using a by (intro take_drop_crypt_region_apart) auto
        moreover have "take psz (drop poff ?m4) = take psz (drop poff m3)"
          using a by (intro take_drop_crypt_region_apart) auto
        ultimately show ?thesis using e by simp
      qed
    qed
  qed
qed

lemma rewrite_view_round_trip:
  assumes d: "rd (pe_decode L) (take H img) dh (sec_pointer_to_raw_data L) = Some koff"
    and p: "rd (pe_decode L) (take H img) ph (sec_pointer_to_raw_data L) = Some poff"
           "rd (pe_decode L) (take H img) ph (sec_size_of_raw_data L) = Some psz"
    and b: "H \<le> koff" "koff + KEY_SIZE \<le> length img" "H \<le> poff" "poff + psz \<le> length img"
           "psz < 2 ^ 31"
    and apart: "koff + KEY_SIZE \<le> poff \<or> poff + psz \<le> koff"
    and r: "pe_rdata_apart L H img koff poff psz"
  shows "\<exists>m st'. rewrite_view L os dh ph img st = Some (m, st') \<and>
           stderr st' = stderr st \<and> disk st' = disk st \<and>
           length m = length img \<and> take H m = take H img \<and>
           take KEY_SIZE (drop koff m) =
             map (\<lambda>i. word_of_nat (rand_pe os (rand_calls st + i) mod 255)) [0..<KEY_SIZE] \<and>
           take psz (drop poff (crypt_region (take KEY_SIZE (drop koff m)) poff psz m)) =
             take psz (drop poff (crypt_region (take KEY_SIZE (drop koff img)) poff psz img))"
proof -
  define k0 where "k0 = take KEY_SIZE (drop koff img)"
  define key1 where "key1 = k0 @ drop KEY_SIZE (key st)"
  define knew :: "byte list"
    where "knew = map (\<lambda>i. word_of_nat (rand_pe os (rand_calls st + i) mod 255)) [0..<KEY_SIZE]"
  define key2 where "key2 = fresh_key (rand_pe os) (rand_calls st) key1"
  define fk where "fk = fresh_key (rand_pe os) (rand_calls st + KEY_SIZE) []"
  define m1 where "m1 = crypt_region key1 poff psz img"
  define m2 where "m2 = take koff m1 @ take KEY_SIZE key2 @ drop (koff + KEY_SIZE) m1"
  define m3 where "m3 = crypt_region key2 poff psz m2"
  have ti: "to_int psz = int psz" using b(5) by (rule to_int_small)
  have lk0: "length k0 = KEY_SIZE" using b(2) by (simp add: k0_def)
  have tk1: "take KEY_SIZE key1 = k0" using lk0 by (simp add: key1_def)
  have lk1: "KEY_SIZE \<le> length key1" using lk0 by (simp add: key1_def)
  have lkn: "length knew = KEY_SIZE" by (simp add: knew_def)
  have k2: "key2 = knew @ drop KEY_SIZE key1" by (simp add: key2_def fresh_key_def knew_def)
  have tk2: "take KEY_SIZE key2 = knew" using lkn by (simp add: k2)
  have lk2: "KEY_SIZE \<le> length key2" using lkn by (simp add: k2)
  have lfk: "KEY_SIZE \<le> length fk" by (simp add: fk_def fresh_key_def)
  have d': "rd (pe_decode L) img dh (sec_pointer_to_raw_data L) = Some koff"
    using d by (rule rd_prefix) simp
  have p': "rd (pe_decode L) img ph (sec_pointer_to_raw_data L) = Some poff"
    "rd (pe_decode L) img ph (sec_size_of_raw_data L) = Some psz"
    using p by (auto intro: rd_prefix)
  have mf: "memcpy_from img koff KEY_SIZE = Some k0"
    using b(2) by (simp add: memcpy_from_def k0_def)
  have x1: "xor_crypt key1 img poff (to_int psz) = Some m1"
    unfolding ti m1_def using lk1 b(4) by (simp add: xor_crypt_region)
  have l1: "length m1 = length img" by (simp add: m1_def)
  have c2: "memcpy_to m1 koff key2 KEY_SIZE = Some m2"
    using b(2) lk2 l1 by (simp add: memcpy_to_def m2_def)
  have l2: "length m2 = length img" using memcpy_to_length [OF c2] l1 by simp
  have h1: "take H m1 = take H img" using b(3) by (simp add: m1_def take_crypt_region_below)
  have h2: "take H m2 = take H img" using memcpy_to_below [OF c2 b(1)] h1 by simp
  have sz2: "rd (pe_decode L) m2 ph (sec_size_of_raw_data L) = Some psz"
    using p(2) h2 by (rule rd_prefix)
  have x3: "xor_crypt key2 m2 poff (to_int psz) = Some m3"
    unfolding ti m3_def using lk2 b(4) l2 by (simp add: xor_crypt_region)
  have l3: "length m3 = length img" using l2 by (simp add: m3_def)
  have h3: "take H m3 = take H img" using b(3) h2 by (simp add: m3_def take_crypt_region_below)
  from encrypt_file_sections_pe_apart [OF h3 l3 r lfk]
  obtain m4 where e4: "encrypt_file_sections_pe L m3 fk = Some m4" and l4: "length m4 = length m3"
    and h4: "take H m4 = take H m3"
    and kr4: "take KEY_SIZE (drop koff m4) = take KEY_SIZE (drop koff m3)"
    and pr4: "take psz (drop poff m4) = take psz (drop poff m3)"
    by blast
  have rv: "rewrite_view L os dh ph img st =
      Some (m4, st\<lparr>key := key2, rand_calls := rand_calls st + KEY_SIZE + KEY_SIZE\<rparr>)"
    by (simp add: rewrite_view_def d' p' mf Let_def key1_def [symmetric] x1
          key2_def [symmetric] c2 sz2 x3 fk_def [symmetric] e4)
  have kr: "take KEY_SIZE (drop koff m4) = knew"
  proof -
    have "take KEY_SIZE (drop koff m3) = take KEY_SIZE (drop koff m2)"
      unfolding m3_def using apart by (intro take_drop_crypt_region_apart) auto
    also have "\<dots> = take KEY_SIZE key2" using c2 by (rule memcpy_to_region)
    finally show ?thesis using kr4 tk2 by simp
  qed
  have pr: "take psz (drop poff (crypt_region knew poff psz m4)) =
            take psz (drop poff (crypt_region k0 poff psz img))"
  proof -
    have kc: "crypt_region knew poff psz m3 = crypt_region key2 poff psz m3"
      by (rule crypt_region_key_cong) (simp add: tk2 lkn)
    have "take psz (drop poff (crypt_region knew poff psz m4)) =
          take psz (drop poff (crypt_region knew poff psz m3))"
      using l4 pr4 by (rule crypt_region_region_cong)
    also have "crypt_region knew poff psz m3 = m2"
      by (simp only: kc) (simp only: m3_def crypt_region_involution)
    also have "take psz (drop poff m2) = take psz (drop poff m1)"
      using c2 apart by (intro memcpy_to_apart) auto
    also have "m1 = crypt_region k0 poff psz img"
      unfolding m1_def by (rule crypt_region_key_cong) (simp add: tk1 lk0)
    finally show ?thesis .
  qed
  show ?thesis
    using rv l4 l3 h4 h3 kr pr
    unfolding kr [symmetric] k0_def knew_def [symmetric]
    by (intro exI [of _ m4] exI [of _ "st\<lparr>key := key2, rand_calls := rand_calls st + KEY_SIZE + KEY_SIZE\<rparr>"])
       simp
qed

lemma pe_section_Some:
  assumes "pe_section L hdr name = Some (h, ptr, sz)"
  shows "find_section L hdr name = Some (Some h)"
    and "rd (pe_decode L) hdr h (sec_pointer_to_raw_data L) = Some ptr"
    and "rd (pe_decode L) hdr h (sec_size_of_raw_data L) = Some sz"
  using assms by (auto simp: pe_section_def split: option.splits)

lemma region_crypt_region:
  assumes "p + n \<le> length buf"
  shows "take n (drop p (crypt_region k p n buf)) =
           map (\<lambda>j. crypt_byte (k ! ((j - p) mod KEY_SIZE)) (buf ! j)) [p..<p + n]"
proof -
  have "take n (drop p [0..<length buf]) = [p..<p + n]"
    using assms by (simp add: take_upt)
  then have "take n (drop p (crypt_region k p n buf)) =
        map (\<lambda>j. if p \<le> j \<and> j < p + n
                  then crypt_byte (k ! ((j - p) mod KEY_SIZE)) (buf ! j) else buf ! j) [p..<p + n]"
    by (simp add: crypt_region_def take_map drop_map)
  also have "\<dots> = map (\<lambda>j. crypt_byte (k ! ((j - p) mod KEY_SIZE)) (buf ! j)) [p..<p + n]"
    by (rule map_cong) simp_all
  finally show ?thesis .
qed

text \<open>
  \<^bold>\<open>C3.\<close> Take a PE file whose headers, its first \<open>H\<close> bytes, name a section \<open>.data\<close>
  with raw data at \<open>koff\<close> and a section \<open>.poly\<close> with \<open>psz\<close> bytes of raw data at
  \<open>poff\<close>, where the eight key bytes at \<open>koff\<close>, the raw data of \<open>.poly\<close> and the raw
  data of \<open>.rdata\<close> (if there is one) lie in the file after the headers and apart from
  each other, and let the file be opened and mapped. Then \<open>mutate_executable\<close> returns
  and leaves a file of the same length with the same headers, so that the next run
  finds both sections where they were; the eight bytes at the start of the raw data of
  \<open>.data\<close> are the eight values of \<^verbatim>\<open>rand() % 255\<close> it has drawn; and \<open>xor_crypt\<close> with
  these eight bytes as key, applied to the raw data of \<open>.poly\<close> in the new file, gives
  the bytes that \<open>xor_crypt\<close> with the old eight key bytes gives on the raw data of
  \<open>.poly\<close> in the old file: the plaintext of \<open>.poly\<close> before the mutation.
\<close>

theorem mutate_executable_round_trip:
  assumes "disk st exe_path = Some img"
    and "create_file_ok os" and "get_file_size_ok os" and "create_mapping_ok os"
    and "map_view_ok os"
    and "pe_section L (take H img) ''.data'' = Some (dh, koff, ksz)"
    and "pe_section L (take H img) ''.poly'' = Some (ph, poff, psz)"
    and "H \<le> koff" and "koff + KEY_SIZE \<le> length img"
    and "H \<le> poff" and "poff + psz \<le> length img" and "psz < 2 ^ 31"
    and "koff + KEY_SIZE \<le> poff \<or> poff + psz \<le> koff"
    and "pe_rdata_apart L H img koff poff psz"
  shows "\<exists>st' m plain again.
      mutate_executable L os exe_path st = Some (Returned st') \<and> disk st' exe_path = Some m
      \<and> length m = length img \<and> take H m = take H img
      \<and> find_section L m ''.data'' = Some (Some dh)
      \<and> rd (pe_decode L) m dh (sec_pointer_to_raw_data L) = Some koff
      \<and> find_section L m ''.poly'' = Some (Some ph)
      \<and> rd (pe_decode L) m ph (sec_pointer_to_raw_data L) = Some poff
      \<and> rd (pe_decode L) m ph (sec_size_of_raw_data L) = Some psz
      \<and> take KEY_SIZE (drop koff m) =
          map (\<lambda>i. word_of_nat (rand_pe os (rand_calls st + i) mod 255)) [0..<KEY_SIZE]
      \<and> xor_crypt (take KEY_SIZE (drop koff img)) img poff (int psz) = Some plain
      \<and> xor_crypt (take KEY_SIZE (drop koff m)) m poff (int psz) = Some again
      \<and> take psz (drop poff again) = take psz (drop poff plain)"
proof -
  note ds = pe_section_Some [OF assms(6)]
  note ps = pe_section_Some [OF assms(7)]
  have fd: "find_section L img ''.data'' = Some (Some dh)"
    using ds(1) by (rule find_section_prefix) simp
  have fp: "find_section L img ''.poly'' = Some (Some ph)"
    using ps(1) by (rule find_section_prefix) simp
  from rewrite_view_round_trip [OF ds(2) ps(2,3) assms(8,9,10,11,12,13,14), of os st]
  obtain m st1 where rv: "rewrite_view L os dh ph img st = Some (m, st1)"
    and l: "length m = length img" and h: "take H m = take H img"
    and k: "take KEY_SIZE (drop koff m) =
             map (\<lambda>i. word_of_nat (rand_pe os (rand_calls st + i) mod 255)) [0..<KEY_SIZE]"
    and pr: "take psz (drop poff (crypt_region (take KEY_SIZE (drop koff m)) poff psz m)) =
             take psz (drop poff (crypt_region (take KEY_SIZE (drop koff img)) poff psz img))"
    by blast
  define st2 where
    "st2 = (if flush_ok os then st1
            else st1\<lparr>stderr := stderr st1 @ [''Warning: Could not flush view of file\<newline>'']\<rparr>)"
  have mu: "mutate_executable L os exe_path st =
              Some (Returned (st2\<lparr>disk := (disk st2)(exe_path \<mapsto> m)\<rparr>))"
    using assms(2,3,4,5)
    by (simp add: mutate_executable_def assms(1) fd fp rv st2_def Let_def)
  have dk: "disk (st2\<lparr>disk := (disk st2)(exe_path \<mapsto> m)\<rparr>) exe_path = Some m" by simp
  have fm: "find_section L m ''.data'' = Some (Some dh)"
    "find_section L m ''.poly'' = Some (Some ph)"
    using ds(1) ps(1) h by (auto intro: find_section_prefix)
  have rm: "rd (pe_decode L) m dh (sec_pointer_to_raw_data L) = Some koff"
    "rd (pe_decode L) m ph (sec_pointer_to_raw_data L) = Some poff"
    "rd (pe_decode L) m ph (sec_size_of_raw_data L) = Some psz"
    using ds(2) ps(2,3) h by (auto intro: rd_prefix)
  have x0: "xor_crypt (take KEY_SIZE (drop koff img)) img poff (int psz) =
              Some (crypt_region (take KEY_SIZE (drop koff img)) poff psz img)"
    using assms(9,11) by (simp add: xor_crypt_region)
  have x1: "xor_crypt (take KEY_SIZE (drop koff m)) m poff (int psz) =
              Some (crypt_region (take KEY_SIZE (drop koff m)) poff psz m)"
    using assms(9,11) l by (simp add: xor_crypt_region)
  show ?thesis
    using mu dk l h fm rm k x0 x1 pr
    by (intro exI [of _ "st2\<lparr>disk := (disk st2)(exe_path \<mapsto> m)\<rparr>"] exI [of _ m]
          exI [of _ "crypt_region (take KEY_SIZE (drop koff img)) poff psz img"]
          exI [of _ "crypt_region (take KEY_SIZE (drop koff m)) poff psz m"] conjI)
qed

lemma demo_pe_sections:
  "pe_section pe_image (take 512 demo_pe) ''.data'' = Some (328, 512, 16)"
  "pe_section pe_image (take 512 demo_pe) ''.poly'' = Some (368, 528, 16)"
  "pe_rdata_apart pe_image 512 demo_pe 512 528 16"
  by (simp_all add: pe_section_def pe_rdata_apart_def find_section_def rd_def rd_bytes_def
        pe_image_def demo_pe_def le_nat_def to_int_def find_loop.simps KEY_SIZE_def)

lemma demo_pe_key: "take KEY_SIZE (drop 512 demo_pe) = [0x10, 0x00, 0xFF, 0x42, 0x07, 0x99, 0x01, 0xFE]"
  by (simp add: demo_pe_def KEY_SIZE_def)

lemma demo_pe_plain:
  "map_option (\<lambda>d. take 16 (drop 528 d))
     (xor_crypt [0x10, 0x00, 0xFF, 0x42, 0x07, 0x99, 0x01, 0xFE] demo_pe 528 16) =
   Some [0x55, 0x48, 0x89, 0xE5, 0x48, 0x83, 0xEC, 0x20, 0x90, 0x90, 0x48, 0x83, 0xC4, 0x20,
         0x5D, 0xC3]"
proof -
  have l: "length demo_pe = 552" by (simp add: demo_pe_def)
  have "xor_crypt [0x10, 0x00, 0xFF, 0x42, 0x07, 0x99, 0x01, 0xFE] demo_pe 528 16 =
        Some (crypt_region [0x10, 0x00, 0xFF, 0x42, 0x07, 0x99, 0x01, 0xFE] 528 (nat 16) demo_pe)"
    by (rule xor_crypt_region) (simp_all add: KEY_SIZE_def l)
  moreover have "take 16 (drop 528
        (crypt_region [0x10, 0x00, 0xFF, 0x42, 0x07, 0x99, 0x01, 0xFE] 528 16 demo_pe)) =
      [0x55, 0x48, 0x89, 0xE5, 0x48, 0x83, 0xEC, 0x20, 0x90, 0x90, 0x48, 0x83, 0xC4, 0x20,
       0x5D, 0xC3]"
    by (simp add: region_crypt_region l) (simp add: upt_rec KEY_SIZE_def demo_pe_def crypt_byte_def)
  ultimately show ?thesis by simp
qed

theorem mutate_executable_round_trip_witness:
  "disk demo_pe_process ''demo.exe'' = Some demo_pe
   \<and> pe_section pe_image (take 512 demo_pe) ''.data'' = Some (328, 512, 16)
   \<and> pe_section pe_image (take 512 demo_pe) ''.poly'' = Some (368, 528, 16)
   \<and> take KEY_SIZE (drop 512 demo_pe) = [0x10, 0x00, 0xFF, 0x42, 0x07, 0x99, 0x01, 0xFE]
   \<and> map_option (\<lambda>d. take 16 (drop 528 d))
        (xor_crypt [0x10, 0x00, 0xFF, 0x42, 0x07, 0x99, 0x01, 0xFE] demo_pe 528 16) =
      Some [0x55, 0x48, 0x89, 0xE5, 0x48, 0x83, 0xEC, 0x20, 0x90, 0x90, 0x48, 0x83, 0xC4, 0x20,
            0x5D, 0xC3]
   \<and> (\<exists>st' m. mutate_executable pe_image calm_pe_os ''demo.exe'' demo_pe_process =
                  Some (Returned st')
        \<and> disk st' ''demo.exe'' = Some m
        \<and> take KEY_SIZE (drop 512 m) = [3, 10, 17, 24, 31, 38, 45, 52]
        \<and> map_option (\<lambda>d. take 16 (drop 528 d))
             (xor_crypt [3, 10, 17, 24, 31, 38, 45, 52] m 528 16) =
           Some [0x55, 0x48, 0x89, 0xE5, 0x48, 0x83, 0xEC, 0x20, 0x90, 0x90, 0x48, 0x83, 0xC4,
                 0x20, 0x5D, 0xC3])"
proof -
  have dk: "disk demo_pe_process ''demo.exe'' = Some demo_pe"
    and rc: "rand_calls demo_pe_process = 0"
    by (simp_all add: demo_pe_process_def)
  have os: "create_file_ok calm_pe_os" "get_file_size_ok calm_pe_os" "create_mapping_ok calm_pe_os"
    "map_view_ok calm_pe_os" "rand_pe calm_pe_os = (\<lambda>n. 7 * n + 3)"
    by (simp_all add: calm_pe_os_def)
  have l: "length demo_pe = 552" by (simp add: demo_pe_def)
  have b: "(512::nat) \<le> 512" "512 + KEY_SIZE \<le> length demo_pe" "(512::nat) \<le> 528"
    "528 + 16 \<le> length demo_pe" "(16::nat) < 2 ^ 31" "512 + KEY_SIZE \<le> 528 \<or> 528 + 16 \<le> (512::nat)"
    by (simp_all add: l KEY_SIZE_def)
  from mutate_executable_round_trip [OF dk os(1,2,3,4) demo_pe_sections(1,2) b demo_pe_sections(3)]
  obtain st' m plain again where r:
    "mutate_executable pe_image calm_pe_os ''demo.exe'' demo_pe_process = Some (Returned st')"
    "disk st' ''demo.exe'' = Some m"
    "take KEY_SIZE (drop 512 m) =
       map (\<lambda>i. word_of_nat (rand_pe calm_pe_os (rand_calls demo_pe_process + i) mod 255))
         [0..<KEY_SIZE]"
    "xor_crypt (take KEY_SIZE (drop 512 demo_pe)) demo_pe 528 (int 16) = Some plain"
    "xor_crypt (take KEY_SIZE (drop 512 m)) m 528 (int 16) = Some again"
    "take 16 (drop 528 again) = take 16 (drop 528 plain)"
    by blast
  have kn: "take KEY_SIZE (drop 512 m) = [3, 10, 17, 24, 31, 38, 45, 52]"
    unfolding r(3) by (simp add: rc os(5) KEY_SIZE_def upt_rec)
  have "take 16 (drop 528 plain) =
      [0x55, 0x48, 0x89, 0xE5, 0x48, 0x83, 0xEC, 0x20, 0x90, 0x90, 0x48, 0x83, 0xC4, 0x20,
       0x5D, 0xC3]"
    using r(4) demo_pe_plain by (simp add: demo_pe_key)
  then have "map_option (\<lambda>d. take 16 (drop 528 d))
             (xor_crypt [3, 10, 17, 24, 31, 38, 45, 52] m 528 16) =
           Some [0x55, 0x48, 0x89, 0xE5, 0x48, 0x83, 0xEC, 0x20, 0x90, 0x90, 0x48, 0x83, 0xC4,
                 0x20, 0x5D, 0xC3]"
    using r(5,6) by (simp add: kn)
  then have "\<exists>st' m. mutate_executable pe_image calm_pe_os ''demo.exe'' demo_pe_process =
                  Some (Returned st')
        \<and> disk st' ''demo.exe'' = Some m
        \<and> take KEY_SIZE (drop 512 m) = [3, 10, 17, 24, 31, 38, 45, 52]
        \<and> map_option (\<lambda>d. take 16 (drop 528 d))
             (xor_crypt [3, 10, 17, 24, 31, 38, 45, 52] m 528 16) =
           Some [0x55, 0x48, 0x89, 0xE5, 0x48, 0x83, 0xEC, 0x20, 0x90, 0x90, 0x48, 0x83, 0xC4,
                 0x20, 0x5D, 0xC3]"
    using r(1,2) kn by blast
  then show ?thesis
    using dk demo_pe_sections(1,2) demo_pe_key demo_pe_plain by (intro conjI)
qed

end
